theory Spec2Isabelle
  imports Complex_Main "HOL-Library.AList" "HOL-Library.Multiset"
begin

section \<open>TMDB scripts: data model\<close>

text \<open>
  The two scripts \<^verbatim>\<open>tmdb_weekly_trend.py\<close> and \<^verbatim>\<open>tmdb_historical.py\<close> read JSON
  objects from the TMDB API, reshape them into table rows and write the tables out.

  Modelling decisions, fixed here once:
  \<^item> A JSON object the program reads is a record with one field per key the program
    looks at, typed as the API types it. A field read with \<^verbatim>\<open>dict.get\<close> is an
    \<open>option\<close>: \<open>None\<close> is Python's \<^verbatim>\<open>None\<close> (key absent, or JSON null). Values of another
    JSON type than the API's are outside the model.
  \<^item> A Python \<^verbatim>\<open>str\<close> is a \<open>string\<close>, one \<open>char\<close> per code point (code points below 256).
  \<^item> A float is the rational it denotes; only the order of popularity values is used.
  \<^item> A pandas DataFrame is the list of its rows, in index order; a row is a record with
    one field per column.
\<close>

record result_record =
  raw_id :: "int option"
  raw_media_type :: "string option"
  raw_title :: "string option"
  raw_name :: "string option"
  raw_release_date :: "string option"
  raw_first_air_date :: "string option"
  raw_genre_ids :: "int list option"
  raw_popularity :: "rat option"
  raw_vote_average :: "rat option"
  raw_vote_count :: "int option"
  raw_original_language :: "string option"
  raw_overview :: "string option"
  raw_poster_path :: "string option"
  raw_backdrop_path :: "string option"

text \<open>The row \<^verbatim>\<open>normalize_results\<close> builds (historical script): nine columns.\<close>

record normalized_row =
  row_id :: "int option"
  media_type :: "string option"
  title :: "string option"
  date :: "string option"
  popularity :: "rat option"
  vote_average :: "rat option"
  vote_count :: "int option"
  original_language :: "string option"
  genres :: string

text \<open>The row \<^verbatim>\<open>normalize_trending\<close> builds (trending script): the same nine columns and four more.\<close>

record trending_row = normalized_row +
  overview :: "string option"
  poster_path :: "string option"
  backdrop_path :: "string option"
  tmdb_url :: string

text \<open>\<^verbatim>\<open>df["week"] = week_label\<close> in \<^verbatim>\<open>main\<close> adds a column.\<close>

record week_row = trending_row +
  week :: string

text \<open>\<^verbatim>\<open>rr = r.copy(); rr["genre"] = g\<close>: the source row with one more column.\<close>

record 'r expanded_row =
  source_row :: 'r
  genre :: string

text \<open>A Python dict keeps insertion order: an association list, written with \<open>AList.update\<close>
  (an existing key keeps its place and takes the new value, a new key goes last).\<close>

type_synonym genre_map = "(int \<times> string) list"

section \<open>Python built-ins the scripts use\<close>

text \<open>\<^verbatim>\<open>str(n)\<close> for an integer.\<close>

definition digit_char :: "nat \<Rightarrow> char" where
  "digit_char d = ''0123456789'' ! d"

function str_nat :: "nat \<Rightarrow> string" where
  "str_nat n = (if n < 10 then [digit_char n] else str_nat (n div 10) @ [digit_char (n mod 10)])"
  by pat_completeness auto
termination
  by (relation "measure (\<lambda>n. n)") auto

declare str_nat.simps [simp del]

definition str_int :: "int \<Rightarrow> string" where
  "str_int i = (if i < 0 then CHR ''-'' # str_nat (nat (- i)) else str_nat (nat i))"

text \<open>\<^verbatim>\<open>a or b\<close> on optional strings: \<^verbatim>\<open>None\<close> and \<^verbatim>\<open>""\<close> are falsy.\<close>

definition py_or :: "string option \<Rightarrow> string option \<Rightarrow> string option" where
  "py_or a b = (case a of None \<Rightarrow> b | Some s \<Rightarrow> if s = [] then b else a)"

text \<open>\<^verbatim>\<open>sep.join(xs)\<close>.\<close>

fun join :: "string \<Rightarrow> string list \<Rightarrow> string" where
  "join sep [] = []"
| "join sep [x] = x"
| "join sep (x # y # ys) = x @ sep @ join sep (y # ys)"

text \<open>\<^verbatim>\<open>s.split(c)\<close> for a one-character separator: never the empty list.\<close>

fun split :: "char \<Rightarrow> string \<Rightarrow> string list" where
  "split c [] = [[]]"
| "split c (x # xs) =
     (if x = c then [] # split c xs
      else (case split c xs of [] \<Rightarrow> [[x]] | w # ws \<Rightarrow> (x # w) # ws))"

text \<open>\<^verbatim>\<open>str.isspace\<close> on one character, and \<^verbatim>\<open>s.strip()\<close>.\<close>

definition isspace :: "char \<Rightarrow> bool" where
  "isspace c = ((of_char c :: nat) \<in> set [9, 10, 11, 12, 13, 28, 29, 30, 31, 32, 133, 160])"

definition strip :: "string \<Rightarrow> string" where
  "strip s = rev (dropWhile isspace (rev (dropWhile isspace s)))"

text \<open>\<^verbatim>\<open>d.get(k, default)\<close> on an insertion-ordered dict.\<close>

definition dict_get :: "('k \<times> 'v) list \<Rightarrow> 'k \<Rightarrow> 'v \<Rightarrow> 'v" where
  "dict_get d k dflt = (case map_of d k of None \<Rightarrow> dflt | Some v \<Rightarrow> v)"

section \<open>pandas: sorting a frame by one column, descending\<close>

text \<open>
  \<^verbatim>\<open>df.sort_values(by=[col], ascending=False, kind=k).reset_index(drop=True)\<close> is library
  code. pandas sorts one column with \<^verbatim>\<open>nargsort(items, kind, ascending, na_position="last")\<close>:
  the positions of the missing values are set aside; for a descending sort the other
  positions are reversed, argsorted ascending with numpy's algorithm \<open>k\<close>, and the result
  reversed again; the positions of the missing values come last, in index order. The
  frame's rows are then taken in the order of that indexer.

  numpy's algorithm is the parameter \<open>argsort\<close>: it maps a list of keys to the list of
  positions in ascending key order.
\<close>

definition nargsort :: "('k list \<Rightarrow> nat list) \<Rightarrow> 'k option list \<Rightarrow> nat list" where
  "nargsort argsort items =
     (let idx = [0..<length items];
          non_nan_idx = rev (filter (\<lambda>i. items ! i \<noteq> None) idx);
          non_nans = map (\<lambda>i. the (items ! i)) non_nan_idx;
          nan_idx = filter (\<lambda>i. items ! i = None) idx;
          indexer = rev (map (\<lambda>j. non_nan_idx ! j) (argsort non_nans))
      in indexer @ nan_idx)"

definition sort_values :: "('k list \<Rightarrow> nat list) \<Rightarrow> ('r \<Rightarrow> 'k option) \<Rightarrow> 'r list \<Rightarrow> 'r list" where
  "sort_values argsort by df = map (\<lambda>i. df ! i) (nargsort argsort (map by df))"

text \<open>
  \<^verbatim>\<open>kind="mergesort"\<close> is numpy's stable sort. The result of a stable sort is determined
  by its input, so the algorithm is modelled by the stable insertion sort of the library.
\<close>

definition mergesort :: "('k::linorder) list \<Rightarrow> nat list" where
  "mergesort ks = sort_key (\<lambda>i. ks ! i) [0..<length ks]"

text \<open>The order a descending sort with missing values last produces: \<open>a\<close> may stand
  before \<open>b\<close>.\<close>

fun desc_na_last :: "('k::linorder) option \<Rightarrow> 'k option \<Rightarrow> bool" where
  "desc_na_last a None = True"
| "desc_na_last None (Some b) = False"
| "desc_na_last (Some a) (Some b) = (b \<le> a)"

section \<open>Normalizer\<close>

text \<open>The body of the loop of \<^verbatim>\<open>normalize_results\<close>: one row from one raw record.\<close>

definition genre_names :: "genre_map \<Rightarrow> result_record \<Rightarrow> string list" where
  "genre_names genre_map r =
     (let genre_ids = (case raw_genre_ids r of None \<Rightarrow> [] | Some ids \<Rightarrow> ids)
      in map (\<lambda>gid. dict_get genre_map gid (str_int gid)) genre_ids)"

definition results_row :: "genre_map \<Rightarrow> result_record \<Rightarrow> normalized_row" where
  "results_row genre_map r =
     \<lparr> row_id = raw_id r,
       media_type = raw_media_type r,
       title = py_or (raw_title r) (raw_name r),
       date = py_or (raw_release_date r) (raw_first_air_date r),
       popularity = raw_popularity r,
       vote_average = raw_vote_average r,
       vote_count = raw_vote_count r,
       original_language = raw_original_language r,
       genres = join ''; '' (genre_names genre_map r) \<rparr>"

definition normalize_results :: "result_record list \<Rightarrow> genre_map \<Rightarrow> normalized_row list" where
  "normalize_results results genre_map =
     (let df = map (results_row genre_map) results
      in if df \<noteq> [] then sort_values mergesort popularity df else df)"

text \<open>The body of the loop of \<^verbatim>\<open>normalize_trending\<close>. \<^verbatim>\<open>f"{r.get('id')}"\<close> prints
  \<^verbatim>\<open>None\<close> for a missing id.\<close>

definition fmt_id :: "int option \<Rightarrow> string" where
  "fmt_id i = (case i of None \<Rightarrow> ''None'' | Some n \<Rightarrow> str_int n)"

definition trending_row :: "genre_map \<Rightarrow> result_record \<Rightarrow> trending_row" where
  "trending_row genre_map r =
     \<lparr> row_id = raw_id r,
       media_type = raw_media_type r,
       title = py_or (raw_title r) (raw_name r),
       date = py_or (raw_release_date r) (raw_first_air_date r),
       popularity = raw_popularity r,
       vote_average = raw_vote_average r,
       vote_count = raw_vote_count r,
       original_language = raw_original_language r,
       genres = join ''; '' (genre_names genre_map r),
       overview = raw_overview r,
       poster_path = raw_poster_path r,
       backdrop_path = raw_backdrop_path r,
       tmdb_url =
         (if raw_media_type r = Some ''movie'' then ''https://www.themoviedb.org/movie/'' @ fmt_id (raw_id r)
          else if raw_media_type r = Some ''tv'' then ''https://www.themoviedb.org/tv/'' @ fmt_id (raw_id r)
          else '''') \<rparr>"

definition normalize_trending :: "result_record list \<Rightarrow> genre_map \<Rightarrow> trending_row list" where
  "normalize_trending results genre_map =
     (let df = map (trending_row genre_map) results
      in if df \<noteq> [] then sort_values mergesort popularity df else df)"

section \<open>Genre expander\<close>

text \<open>\<^verbatim>\<open>[x.strip() for x in str(r["genres"]).split(";") if x and x.strip()]\<close>\<close>

definition g_list :: "string \<Rightarrow> string list" where
  "g_list s = map strip (filter (\<lambda>x. x \<noteq> [] \<and> strip x \<noteq> []) (split CHR '';'' s))"

text \<open>The function is the same text in both scripts; it reads the column \<^verbatim>\<open>genres\<close> only,
  so one definition serves every row type that has it.\<close>

fun expand_by_genre :: "'a normalized_row_scheme list \<Rightarrow> 'a normalized_row_scheme expanded_row list" where
  "expand_by_genre [] = []"
| "expand_by_genre (r # df) =
     (if g_list (genres r) = [] then [\<lparr> source_row = r, genre = '''' \<rparr>]
      else map (\<lambda>g. \<lparr> source_row = r, genre = g \<rparr>) (g_list (genres r)))
     @ expand_by_genre df"

text \<open>The specification's wording of the tokens of a joined genre string: split on the
  semicolon, trim whitespace, drop the empty tokens.\<close>

definition spec_tokens :: "string \<Rightarrow> string list" where
  "spec_tokens s = filter (\<lambda>t. t \<noteq> []) (map strip (split CHR '';'' s))"

section \<open>pandas: tables on disk\<close>

text \<open>
  \<^verbatim>\<open>df.to_csv(path)\<close> writes a frame as text and \<^verbatim>\<open>pd.read_csv(path)\<close> reads the text back
  (library code). A table has the fourteen columns of the trending frame. A row is
  modelled by its cells, the type \<open>'t\<close> being what a text column holds:
  \<^item> on disk (\<open>csv_row\<close>) a cell of a text column is its text, empty for a missing value;
  \<^item> in a frame read back (\<open>frame_row\<close>) it is a string, or missing (\<open>None\<close>);
  \<^item> a cell of a numeric column is the number it holds, by its value, or missing; how
    pandas spells a number (12 or 12.0) is not modelled.
\<close>

record 't table_row =
  t_id :: "int option"
  t_media_type :: 't
  t_title :: 't
  t_date :: 't
  t_popularity :: "rat option"
  t_vote_average :: "rat option"
  t_vote_count :: "int option"
  t_original_language :: 't
  t_genres :: 't
  t_overview :: 't
  t_poster_path :: 't
  t_backdrop_path :: 't
  t_tmdb_url :: 't
  t_week :: 't

type_synonym csv_row = "string table_row"

type_synonym frame_row = "string option table_row"

definition map_text :: "('a \<Rightarrow> 'b) \<Rightarrow> 'a table_row \<Rightarrow> 'b table_row" where
  "map_text f r =
     \<lparr> t_id = t_id r, t_media_type = f (t_media_type r), t_title = f (t_title r),
       t_date = f (t_date r), t_popularity = t_popularity r, t_vote_average = t_vote_average r,
       t_vote_count = t_vote_count r, t_original_language = f (t_original_language r),
       t_genres = f (t_genres r), t_overview = f (t_overview r),
       t_poster_path = f (t_poster_path r), t_backdrop_path = f (t_backdrop_path r),
       t_tmdb_url = f (t_tmdb_url r), t_week = f (t_week r) \<rparr>"

text \<open>
  \<^verbatim>\<open>read_csv\<close> is called with its defaults, so a cell whose text is one of pandas' default
  missing-value markers (the list of pandas 2) is read as missing; \<^verbatim>\<open>to_csv\<close> writes a
  missing value as the empty text. pandas also decides the type of a column from all
  its cells: a text column whose cells all read as numbers or as booleans comes back
  typed so and may be spelled differently when written again. That is not modelled:
  a text cell that is not a marker is read as itself.
\<close>

definition na_values :: "string list" where
  "na_values =
     ['''', ''#N/A'', ''#N/A N/A'', ''#NA'', ''-1.#IND'', ''-1.#QNAN'', ''-NaN'', ''-nan'',
      ''1.#IND'', ''1.#QNAN'', ''<NA>'', ''N/A'', ''NA'', ''NULL'', ''NaN'', ''None'', ''n/a'',
      ''nan'', ''null'']"

definition read_cell :: "string \<Rightarrow> string option" where
  "read_cell c = (if c \<in> set na_values then None else Some c)"

definition write_cell :: "string option \<Rightarrow> string" where
  "write_cell v = (case v of None \<Rightarrow> '''' | Some s \<Rightarrow> s)"

definition read_csv :: "csv_row list \<Rightarrow> frame_row list" where
  "read_csv rows = map (map_text read_cell) rows"

definition to_csv :: "frame_row list \<Rightarrow> csv_row list" where
  "to_csv frame = map (map_text write_cell) frame"

text \<open>A row of the frame \<open>df\<close> that \<^verbatim>\<open>main\<close> builds, as a row of a frame of cells.\<close>

definition frame_row :: "week_row \<Rightarrow> frame_row" where
  "frame_row r =
     \<lparr> t_id = row_id r, t_media_type = media_type r, t_title = title r, t_date = date r,
       t_popularity = popularity r, t_vote_average = vote_average r,
       t_vote_count = vote_count r, t_original_language = original_language r,
       t_genres = Some (genres r), t_overview = overview r, t_poster_path = poster_path r,
       t_backdrop_path = backdrop_path r, t_tmdb_url = Some (tmdb_url r),
       t_week = Some (week r) \<rparr>"

section \<open>The environment: network, clock, files\<close>

text \<open>
  What the API returns is a JSON object; the program reads three of its keys. \<open>None\<close> is
  an absent key. An entry of \<^verbatim>\<open>genres\<close> is read with \<^verbatim>\<open>g["id"]\<close> and \<^verbatim>\<open>g["name"]\<close>: a pair.
  An entry of \<^verbatim>\<open>cast\<close> is read with \<^verbatim>\<open>c.get("name")\<close>.
\<close>

record cast_member =
  cast_name :: "string option"

record payload =
  j_results :: "result_record list option"
  j_genres :: "(int \<times> string) list option"
  j_cast :: "cast_member list option"

text \<open>A \<^verbatim>\<open>requests\<close> response: \<open>resp_json = None\<close> when the body is not JSON and
  \<^verbatim>\<open>resp.json()\<close> raises.\<close>

record response =
  status_code :: int
  resp_text :: string
  resp_json :: "payload option"

datatype pval = PInt int | PStr string

type_synonym params = "(string \<times> pval) list"

datatype error =
    RuntimeError string
  | RequestException
  | JSONDecodeError
  | AttributeError
  | TypeError
  | ValueError
  | ParserError
  | SystemExit string

text \<open>What the program does to the outside, in order: GET requests and sleeps.\<close>

datatype event = Get string params | Sleep rat

text \<open>A file under \<^verbatim>\<open>DATA_DIR\<close>. The history file and the clean CSV hold a table of cells.
  The other files are never read back by the program and hold what was written to
  them.\<close>

datatype file_content =
    JsonFile payload
  | GenresFile genre_map
  | TableFile "csv_row list"
  | ByGenreFile "week_row expanded_row list"
  | CastFile "(string \<times> nat) list"

text \<open>
  The state of the world a run goes through.
  \<^item> \<open>token\<close>: the environment variable \<^verbatim>\<open>TMDB_V4_TOKEN\<close> (empty when unset);
  \<^item> \<open>today\<close>: \<^verbatim>\<open>datetime.now(timezone.utc).strftime("%Y-%m-%d")\<close>;
  \<^item> \<open>server\<close>: the answer to a GET, which may depend on everything that happened so
    far; \<open>None\<close> when \<^verbatim>\<open>requests.get\<close> raises. The headers are the same for every
    request of a run and are left out;
  \<^item> \<open>quicksort\<close>: numpy's \<^verbatim>\<open>argsort(kind="quicksort")\<close>, the default \<open>kind\<close> of
    \<^verbatim>\<open>sort_values\<close>. It is not a stable sort, and the order it gives equal keys depends
    on the numpy build and the processor, so it belongs to the environment;
  \<^item> \<open>trace\<close>: the events so far;
  \<^item> \<open>calls\<close>: every finished call of \<^verbatim>\<open>fetch_json\<close> with its arguments and outcome, kept
    so that theorems can speak about single-page requests;
  \<^item> \<open>files\<close>: the files under \<^verbatim>\<open>DATA_DIR\<close>, by name.
  Console output is not modelled.
\<close>

record world =
  token :: string
  today :: string
  server :: "event list \<Rightarrow> string \<Rightarrow> params \<Rightarrow> response option"
  quicksort :: "nat list \<Rightarrow> nat list"
  trace :: "event list"
  calls :: "(string \<times> params \<times> (error + payload)) list"
  files :: "string \<Rightarrow> file_content option"

definition sleep :: "rat \<Rightarrow> world \<Rightarrow> world" where
  "sleep secs w = w\<lparr> trace := trace w @ [Sleep secs] \<rparr>"

definition requests_get :: "string \<Rightarrow> params \<Rightarrow> world \<Rightarrow> response option \<times> world" where
  "requests_get url params w =
     (server w (trace w) url params, w\<lparr> trace := trace w @ [Get url params] \<rparr>)"

definition write_file :: "string \<Rightarrow> file_content \<Rightarrow> world \<Rightarrow> world" where
  "write_file path content w = w\<lparr> files := (files w)(path \<mapsto> content) \<rparr>"

section \<open>Fetcher\<close>

definition API_BASE :: string where
  "API_BASE = ''https://api.themoviedb.org/3''"

text \<open>
  \<^verbatim>\<open>fetch_json\<close>, the same text in both scripts. The loop \<^verbatim>\<open>for attempt in range(3)\<close> runs
  over the list of attempt numbers; \<open>last_resp\<close> is \<^verbatim>\<open>None\<close> before the first response. The
  statement after the loop raises \<^verbatim>\<open>RuntimeError\<close> with the formatted message.
\<close>

fun fetch_json_loop ::
  "string \<Rightarrow> params \<Rightarrow> int list \<Rightarrow> response option \<Rightarrow> world \<Rightarrow> (error + payload) \<times> world" where
  "fetch_json_loop url params [] last_resp w =
     (case last_resp of
        None \<Rightarrow> (Inl AttributeError, w)
      | Some r \<Rightarrow>
          (Inl (RuntimeError (''HTTP '' @ str_int (status_code r) @ '' for '' @ url @ '': ''
                               @ take 300 (resp_text r))), w))"
| "fetch_json_loop url params (attempt # rest) last_resp w =
     (case requests_get url params w of
        (None, w1) \<Rightarrow> (Inl RequestException, w1)
      | (Some resp, w1) \<Rightarrow>
          if status_code resp = 200 then
            (case resp_json resp of
               None \<Rightarrow> (Inl JSONDecodeError, w1)
             | Some j \<Rightarrow> (Inr j, w1))
          else fetch_json_loop url params rest (Some resp) (sleep (of_int (1 + attempt)) w1))"

definition fetch_json :: "string \<Rightarrow> params \<Rightarrow> world \<Rightarrow> (error + payload) \<times> world" where
  "fetch_json path params w =
     (let url = API_BASE @ path;
          (r, w1) = fetch_json_loop url params [0, 1, 2] None w
      in (r, w1\<lparr> calls := calls w1 @ [(path, params, r)] \<rparr>))"

text \<open>\<^verbatim>\<open>data.get("results", [])\<close>, \<^verbatim>\<open>movie.get("genres", [])\<close>, \<^verbatim>\<open>credits.get("cast", [])\<close>.\<close>

definition get_results :: "payload \<Rightarrow> result_record list" where
  "get_results data = (case j_results data of None \<Rightarrow> [] | Some rs \<Rightarrow> rs)"

definition get_genres :: "payload \<Rightarrow> (int \<times> string) list" where
  "get_genres data = (case j_genres data of None \<Rightarrow> [] | Some gs \<Rightarrow> gs)"

definition get_cast :: "payload \<Rightarrow> cast_member list" where
  "get_cast data = (case j_cast data of None \<Rightarrow> [] | Some cs \<Rightarrow> cs)"

text \<open>\<^verbatim>\<open>get_trending\<close> (trending script): the loop over \<^verbatim>\<open>range(1, pages + 1)\<close>, with its
  \<^verbatim>\<open>break\<close>, and the dict \<^verbatim>\<open>{"results": all_results}\<close> it returns.\<close>

fun get_trending_loop ::
  "string \<Rightarrow> int list \<Rightarrow> result_record list \<Rightarrow> world \<Rightarrow> (error + result_record list) \<times> world" where
  "get_trending_loop path [] all_results w = (Inr all_results, w)"
| "get_trending_loop path (page # rest) all_results w =
     (case fetch_json path [(''page'', PInt page)] w of
        (Inl e, w1) \<Rightarrow> (Inl e, w1)
      | (Inr data, w1) \<Rightarrow>
          (let page_results = get_results data in
           if page_results = [] then (Inr all_results, w1)
           else get_trending_loop path rest (all_results @ page_results) (sleep (3 / 10) w1)))"

definition get_trending :: "string \<Rightarrow> string \<Rightarrow> int \<Rightarrow> world \<Rightarrow> (error + payload) \<times> world" where
  "get_trending media_type' time_window pages w =
     (case get_trending_loop (''/trending/'' @ media_type' @ ''/'' @ time_window) [1..pages] [] w of
        (Inl e, w1) \<Rightarrow> (Inl e, w1)
      | (Inr all_results, w1) \<Rightarrow>
          (Inr \<lparr> j_results = Some all_results, j_genres = None, j_cast = None \<rparr>, w1))"

text \<open>\<^verbatim>\<open>discover_range\<close> (historical script). \<^verbatim>\<open>params = dict(base_params); params["page"] = page\<close>
  puts the page last; \<^verbatim>\<open>r["media_type"] = media_type\<close> stamps every record of the page.\<close>

fun discover_range_loop ::
  "string \<Rightarrow> params \<Rightarrow> string \<Rightarrow> int list \<Rightarrow> result_record list \<Rightarrow> world
     \<Rightarrow> (error + result_record list) \<times> world" where
  "discover_range_loop path base_params media_type' [] all_results w = (Inr all_results, w)"
| "discover_range_loop path base_params media_type' (page # rest) all_results w =
     (let params = AList.update ''page'' (PInt page) base_params in
      case fetch_json path params w of
        (Inl e, w1) \<Rightarrow> (Inl e, w1)
      | (Inr data, w1) \<Rightarrow>
          (let results = get_results data in
           if results = [] then (Inr all_results, w1)
           else discover_range_loop path base_params media_type' rest
                  (all_results @ map (\<lambda>r. r\<lparr> raw_media_type := Some media_type' \<rparr>) results)
                  (sleep (3 / 10) w1)))"

text \<open>The \<^verbatim>\<open>if\<close>/\<^verbatim>\<open>elif\<close>/\<^verbatim>\<open>else\<close> at the head of \<^verbatim>\<open>discover_range\<close>: the path and the
  base parameters of the two media types, \<open>None\<close> for the \<^verbatim>\<open>else\<close> branch.\<close>

definition discover_request :: "string \<Rightarrow> string \<Rightarrow> string \<Rightarrow> (string \<times> params) option" where
  "discover_request media_type' start_date end_date =
     (if media_type' = ''movie'' then
        Some (''/discover/movie'',
              [(''sort_by'', PStr ''popularity.desc''),
               (''primary_release_date.gte'', PStr start_date),
               (''primary_release_date.lte'', PStr end_date),
               (''include_adult'', PStr ''false'')])
      else if media_type' = ''tv'' then
        Some (''/discover/tv'',
              [(''sort_by'', PStr ''popularity.desc''),
               (''first_air_date.gte'', PStr start_date),
               (''first_air_date.lte'', PStr end_date)])
      else None)"

definition discover_range ::
  "string \<Rightarrow> string \<Rightarrow> string \<Rightarrow> int \<Rightarrow> world \<Rightarrow> (error + result_record list) \<times> world" where
  "discover_range media_type' start_date end_date pages w =
     (case discover_request media_type' start_date end_date of
        None \<Rightarrow> (Inr [], w)
      | Some (path, base_params) \<Rightarrow>
          discover_range_loop path base_params media_type' [1..pages] [] w)"

section \<open>Genre resolver\<close>

text \<open>\<^verbatim>\<open>{g["id"]: g["name"] for g in gs}\<close> and \<^verbatim>\<open>d.update(other)\<close>: the entries are stored one
  after the other.\<close>

definition dict_update :: "('k \<times> 'v) list \<Rightarrow> ('k \<times> 'v) list \<Rightarrow> ('k \<times> 'v) list" where
  "dict_update d other = foldl (\<lambda>acc (k, v). AList.update k v acc) d other"

definition dict_of :: "('k \<times> 'v) list \<Rightarrow> ('k \<times> 'v) list" where
  "dict_of entries = dict_update [] entries"

text \<open>\<^verbatim>\<open>get_genre_map\<close>, the same text in both scripts but for the name of the file it
  writes: \<^verbatim>\<open>genres.json\<close> (trending), \<^verbatim>\<open>genres_historical.json\<close> (historical).\<close>

definition get_genre_map :: "string \<Rightarrow> world \<Rightarrow> (error + genre_map) \<times> world" where
  "get_genre_map file_name w =
     (case fetch_json ''/genre/movie/list'' [] w of
        (Inl e, w1) \<Rightarrow> (Inl e, w1)
      | (Inr movie, w1) \<Rightarrow>
          (case fetch_json ''/genre/tv/list'' [] w1 of
             (Inl e, w2) \<Rightarrow> (Inl e, w2)
           | (Inr tv, w2) \<Rightarrow>
               (let genre_map = dict_of (get_genres movie);
                    genre_map = dict_update genre_map (dict_of (get_genres tv))
                in (Inr genre_map, write_file file_name (GenresFile genre_map) w2))))"

section \<open>Cast sampler\<close>

definition get_credits :: "string option \<Rightarrow> int \<Rightarrow> world \<Rightarrow> (error + payload) \<times> world" where
  "get_credits media_type' tmdb_id w =
     (if media_type' = Some ''movie'' then fetch_json (''/movie/'' @ str_int tmdb_id @ ''/credits'') [] w
      else if media_type' = Some ''tv'' then fetch_json (''/tv/'' @ str_int tmdb_id @ ''/credits'') [] w
      else (Inr \<lparr> j_results = None, j_genres = None, j_cast = Some [] \<rparr>, w))"

text \<open>The inner loop \<^verbatim>\<open>for c in credits.get("cast", [])\<close>.\<close>

fun count_cast :: "cast_member list \<Rightarrow> (string \<times> nat) list \<Rightarrow> (string \<times> nat) list" where
  "count_cast [] cast_counts = cast_counts"
| "count_cast (c # cs) cast_counts =
     (case cast_name c of
        None \<Rightarrow> count_cast cs cast_counts
      | Some name \<Rightarrow>
          if name = [] then count_cast cs cast_counts
          else count_cast cs (AList.update name (dict_get cast_counts name 0 + 1) cast_counts))"

text \<open>The outer loop \<^verbatim>\<open>for _, row in sample.iterrows()\<close>. \<^verbatim>\<open>int(row["id"])\<close> raises on a
  missing id; \<open>id_error\<close> is the exception it raises then.\<close>

fun sample_loop ::
  "error \<Rightarrow> 'a normalized_row_scheme list \<Rightarrow> (string \<times> nat) list \<Rightarrow> world
     \<Rightarrow> (error + (string \<times> nat) list) \<times> world" where
  "sample_loop id_error [] cast_counts w = (Inr cast_counts, w)"
| "sample_loop id_error (row # rest) cast_counts w =
     (case row_id row of
        None \<Rightarrow> (Inl id_error, w)
      | Some tmdb_id \<Rightarrow>
          (case get_credits (media_type row) tmdb_id w of
             (Inl e, w1) \<Rightarrow> (Inl e, w1)
           | (Inr credits, w1) \<Rightarrow>
               sample_loop id_error rest (count_cast (get_cast credits) cast_counts)
                 (sleep (2 / 10) w1)))"

text \<open>\<^verbatim>\<open>df.head(n)\<close>: the first \<open>n\<close> rows, or all but the last \<open>-n\<close>.\<close>

definition head :: "int \<Rightarrow> 'a list \<Rightarrow> 'a list" where
  "head n df = (if 0 \<le> n then take (nat n) df else take (length df - nat (- n)) df)"

text \<open>
  The exception of \<^verbatim>\<open>int(row["id"])\<close> at a row without an id. The column \<^verbatim>\<open>id\<close> of a frame
  in which no row has an id holds \<^verbatim>\<open>None\<close>, and \<^verbatim>\<open>int(None)\<close> raises \<^verbatim>\<open>TypeError\<close>; when some
  row has an id the column holds floats, a missing id is NaN, and \<^verbatim>\<open>int\<close> of it raises
  \<^verbatim>\<open>ValueError\<close>. (That an id above \<open>2^53\<close> is rounded in a float column is not modelled.)
\<close>

definition int_id_error :: "'a normalized_row_scheme list \<Rightarrow> error" where
  "int_id_error df = (if list_all (\<lambda>r. row_id r = None) df then TypeError else ValueError)"

text \<open>\<^verbatim>\<open>out.sort_values("count", ascending=False)\<close> names no \<open>kind\<close>: pandas uses its default,
  \<^verbatim>\<open>"quicksort"\<close>.\<close>

definition top_cast_from_sample ::
  "'a normalized_row_scheme list \<Rightarrow> int \<Rightarrow> world \<Rightarrow> (error + (string \<times> nat) list) \<times> world" where
  "top_cast_from_sample df sample_size w =
     (case sample_loop (int_id_error df) (head sample_size df) [] w of
        (Inl e, w1) \<Rightarrow> (Inl e, w1)
      | (Inr cast_counts, w1) \<Rightarrow>
          if cast_counts = [] then (Inr [], w1)
          else (Inr (sort_values (quicksort w1) (\<lambda>(name, cnt). Some cnt) cast_counts), w1))"

text \<open>What numpy promises of \<^verbatim>\<open>argsort\<close> whatever the \<open>kind\<close>: the positions, each once, in
  ascending order of their keys.\<close>

definition argsort_ok :: "(('k::linorder) list \<Rightarrow> nat list) \<Rightarrow> bool" where
  "argsort_ok argsort =
     (\<forall>ks. mset (argsort ks) = mset [0..<length ks] \<and> sorted (map (\<lambda>i. ks ! i) (argsort ks)))"

section \<open>Exporter: the run of the trending script\<close>

record args =
  media :: string
  window :: string
  cast_sample :: int

definition add_week :: "string \<Rightarrow> trending_row \<Rightarrow> week_row" where
  "add_week week_label r =
     \<lparr> row_id = row_id r, media_type = media_type r, title = title r, date = date r,
       popularity = popularity r, vote_average = vote_average r, vote_count = vote_count r,
       original_language = original_language r, genres = genres r, overview = overview r,
       poster_path = poster_path r, backdrop_path = backdrop_path r, tmdb_url = tmdb_url r,
       week = week_label \<rparr>"

text \<open>Step 6 of \<^verbatim>\<open>main\<close>: \<^verbatim>\<open>old = pd.read_csv(hist_path)\<close> when the history file exists,
  \<^verbatim>\<open>hist = pd.concat([old, df], ignore_index=True)\<close>, and \<^verbatim>\<open>hist.to_csv(hist_path)\<close>. A file at
  that path that holds something else than a table is answered with \<open>ParserError\<close>.\<close>

definition append_history :: "string \<Rightarrow> week_row list \<Rightarrow> world \<Rightarrow> (error + unit) \<times> world" where
  "append_history hist_path df w =
     (case files w hist_path of
        None \<Rightarrow> (Inr (), write_file hist_path (TableFile (to_csv (map frame_row df))) w)
      | Some (TableFile cells) \<Rightarrow>
          (let old = read_csv cells;
               hist = old @ map frame_row df
           in (Inr (), write_file hist_path (TableFile (to_csv hist)) w))
      | Some _ \<Rightarrow> (Inl ParserError, w))"

text \<open>Step 7 of \<^verbatim>\<open>main\<close>.\<close>

definition cast_step :: "args \<Rightarrow> string \<Rightarrow> week_row list \<Rightarrow> world \<Rightarrow> (error + unit) \<times> world" where
  "cast_step args STAMP df w =
     (if df \<noteq> [] \<and> cast_sample args > 0 then
        (case top_cast_from_sample df (min (cast_sample args) (int (length df))) w of
           (Inl e, w1) \<Rightarrow> (Inl e, w1)
         | (Inr cast_df, w1) \<Rightarrow>
             (Inr (), write_file (''sample_cast_counts_'' @ STAMP @ ''.csv'') (CastFile cast_df) w1))
      else (Inr (), w))"

definition main :: "args \<Rightarrow> world \<Rightarrow> (error + unit) \<times> world" where
  "main args w =
     (if token w = [] then
        (Inl (SystemExit ''Set environment variable TMDB_V4_TOKEN to your v4 read access token.''), w)
      else
        (let STAMP = today w;
             week_label = STAMP;
             prefix = ''trending_'' @ media args @ ''_'' @ window args
         in case get_trending (media args) (window args) 5 w of
              (Inl e, w1) \<Rightarrow> (Inl e, w1)
            | (Inr trending, w1) \<Rightarrow>
                (let w2 = write_file (prefix @ ''_raw_'' @ STAMP @ ''.json'') (JsonFile trending) w1
                 in case get_genre_map ''genres.json'' w2 of
                      (Inl e, w3) \<Rightarrow> (Inl e, w3)
                    | (Inr genre_map, w3) \<Rightarrow>
                        (let results = get_results trending;
                             df = map (add_week week_label) (normalize_trending results genre_map);
                             w4 = write_file (prefix @ ''_clean_'' @ STAMP @ ''.csv'')
                                    (TableFile (to_csv (map frame_row df))) w3;
                             df_by_genre = expand_by_genre df;
                             w5 = write_file (prefix @ ''_by_genre_'' @ STAMP @ ''.csv'')
                                    (ByGenreFile df_by_genre) w4
                         in case append_history (prefix @ ''_history.csv'') df w5 of
                              (Inl e, w6) \<Rightarrow> (Inl e, w6)
                            | (Inr u, w6) \<Rightarrow> cast_step args STAMP df w6))))"

section \<open>Pagination, as the specification words it\<close>

text \<open>The page a finished call of \<^verbatim>\<open>fetch_json\<close> delivered: its result list, empty for a
  call that raised.\<close>

definition outcome_results :: "error + payload \<Rightarrow> result_record list" where
  "outcome_results out = (case out of Inl e \<Rightarrow> [] | Inr data \<Rightarrow> get_results data)"

text \<open>
  \<open>new\<close> are the single-page requests one paginated call made, in order, and \<open>res\<close> is
  what the call returned. The specification asks that
  \<^item> there are at most \<open>max_pages\<close> of them;
  \<^item> they ask for the pages 1, 2, 3, ... in this order (\<open>request\<close> gives the path and
    the parameters of a page);
  \<^item> every request but the last delivered a non-empty page;
  \<^item> a call that raised did so with the error of its last request;
  \<^item> a call that returned made successful requests only, returned the concatenation
    of their pages in order (every record passed through \<open>stamp\<close>), and stopped short of
    \<open>max_pages\<close> requests only on an empty page.
\<close>

definition pagination_spec ::
  "(int \<Rightarrow> string \<times> params) \<Rightarrow> (result_record \<Rightarrow> result_record) \<Rightarrow> int
     \<Rightarrow> (string \<times> params \<times> (error + payload)) list \<Rightarrow> error + result_record list \<Rightarrow> bool" where
  "pagination_spec request stamp max_pages new res =
     (let outs = map (\<lambda>(path, params, out). out) new in
      length new \<le> nat max_pages \<and>
      map (\<lambda>(path, params, out). (path, params)) new
        = map (\<lambda>i. request (int i)) [1..<Suc (length new)] \<and>
      list_all (\<lambda>out. outcome_results out \<noteq> []) (butlast outs) \<and>
      (case res of
         Inl e \<Rightarrow> outs \<noteq> [] \<and> last outs = Inl e
       | Inr rs \<Rightarrow>
           list_all (\<lambda>out. \<not> isl out) outs \<and>
           rs = map stamp (concat (map outcome_results outs)) \<and>
           (length new < nat max_pages \<longrightarrow> outs \<noteq> [] \<and> outcome_results (last outs) = [])))"

section \<open>Example inputs\<close>

text \<open>The JSON object \<^verbatim>\<open>{}\<close> as a result record, and three records: \<open>rec_A\<close> and \<open>rec_C\<close>
  have the same popularity, \<open>rec_B\<close> a higher one.\<close>

definition no_fields :: result_record where
  "no_fields =
     \<lparr> raw_id = None, raw_media_type = None, raw_title = None, raw_name = None,
       raw_release_date = None, raw_first_air_date = None, raw_genre_ids = None,
       raw_popularity = None, raw_vote_average = None, raw_vote_count = None,
       raw_original_language = None, raw_overview = None, raw_poster_path = None,
       raw_backdrop_path = None \<rparr>"

definition rec_A :: result_record where
  "rec_A = no_fields\<lparr> raw_id := Some 1, raw_media_type := Some ''movie'', raw_title := Some ''A'',
                        raw_popularity := Some 5 \<rparr>"

definition rec_B :: result_record where
  "rec_B = no_fields\<lparr> raw_id := Some 2, raw_media_type := Some ''tv'', raw_name := Some ''B'',
                        raw_popularity := Some 7 \<rparr>"

definition rec_C :: result_record where
  "rec_C = no_fields\<lparr> raw_id := Some 3, raw_media_type := Some ''movie'', raw_title := Some ''C'',
                        raw_popularity := Some 5 \<rparr>"

text \<open>
  numpy's quicksort is not modelled as an algorithm: the order it gives equal keys
  depends on the numpy build and the processor. \<open>np_quicksort\<close> holds the answer of a
  current x86-64 build on the one list of keys the examples below sort, \<open>2, 2, 1, 1\<close>,
  which is \<open>3, 2, 1, 0\<close>: equal keys in the reverse of their order. On every other list
  it stands in with the stable order; no example depends on that.
\<close>

definition np_quicksort :: "nat list \<Rightarrow> nat list" where
  "np_quicksort ks = (if ks = [2, 2, 1, 1] then [3, 2, 1, 0] else mergesort ks)"

text \<open>Worlds: one whose server never answers a request; one whose server is down (503 with
  a body of 400 characters); one whose server answers 503 twice and then 200.\<close>

definition quiet_world :: world where
  "quiet_world =
     \<lparr> token = ''secret'', today = ''2024-05-06'', server = (\<lambda>tr url ps. None),
       quicksort = np_quicksort, trace = [], calls = [], files = Map.empty \<rparr>"

definition empty_payload :: payload where
  "empty_payload = \<lparr> j_results = None, j_genres = None, j_cast = None \<rparr>"

definition down_world :: world where
  "down_world =
     quiet_world\<lparr> server := (\<lambda>tr url ps.
       Some \<lparr> status_code = 503, resp_text = replicate 400 (CHR ''x''), resp_json = None \<rparr>) \<rparr>"

definition flaky_world :: world where
  "flaky_world =
     quiet_world\<lparr> server := (\<lambda>tr url ps.
       if length tr < 4 then Some \<lparr> status_code = 503, resp_text = ''busy'', resp_json = None \<rparr>
       else Some \<lparr> status_code = 200, resp_text = ''{}'', resp_json = Some empty_payload \<rparr>) \<rparr>"

text \<open>A world whose server has two pages of results, for every path: page 1 holds \<open>rec_A\<close>
  and \<open>rec_B\<close>, page 2 holds \<open>rec_C\<close>, every later page is empty.\<close>

definition page_of :: "params \<Rightarrow> result_record list" where
  "page_of ps =
     (if map_of ps ''page'' = Some (PInt 1) then [rec_A, rec_B]
      else if map_of ps ''page'' = Some (PInt 2) then [rec_C]
      else [])"

definition paged_world :: world where
  "paged_world =
     quiet_world\<lparr> server := (\<lambda>tr url ps.
       Some \<lparr> status_code = 200, resp_text = ''...'',
              resp_json = Some \<lparr> j_results = Some (page_of ps), j_genres = None, j_cast = None \<rparr> \<rparr>) \<rparr>"

text \<open>A world whose server knows the two genre lists (identifier 10 is in both), the credits
  of the three example titles, and the two pages of results for every other path. In
  the credits of the series 2 four actors appear, Ann, Bob, Cy and Dee in this order
  (and an entry without a name); in those of the movie 1, Cy and Dee again.\<close>

definition tmdb_server :: "event list \<Rightarrow> string \<Rightarrow> params \<Rightarrow> response option" where
  "tmdb_server tr url ps =
     Some \<lparr> status_code = 200, resp_text = ''...'',
            resp_json = Some
              (if url = API_BASE @ ''/genre/movie/list'' then
                 empty_payload\<lparr> j_genres := Some [(10, ''Horror''), (28, ''Action'')] \<rparr>
               else if url = API_BASE @ ''/genre/tv/list'' then
                 empty_payload\<lparr> j_genres := Some [(10, ''Drama''), (16, ''Animation'')] \<rparr>
               else if url = API_BASE @ ''/tv/2/credits'' then
                 empty_payload\<lparr> j_cast := Some [\<lparr> cast_name = Some ''Ann'' \<rparr>, \<lparr> cast_name = Some ''Bob'' \<rparr>,
                                                  \<lparr> cast_name = None \<rparr>, \<lparr> cast_name = Some ''Cy'' \<rparr>,
                                                  \<lparr> cast_name = Some ''Dee'' \<rparr>] \<rparr>
               else if url = API_BASE @ ''/movie/1/credits'' then
                 empty_payload\<lparr> j_cast := Some [\<lparr> cast_name = Some ''Cy'' \<rparr>, \<lparr> cast_name = Some ''Dee'' \<rparr>] \<rparr>
               else if url = API_BASE @ ''/movie/3/credits'' then
                 empty_payload\<lparr> j_cast := Some [\<lparr> cast_name = Some '''' \<rparr>] \<rparr>
               else empty_payload\<lparr> j_results := Some (page_of ps) \<rparr>) \<rparr>"

definition tmdb_world :: world where
  "tmdb_world = quiet_world\<lparr> server := tmdb_server \<rparr>"

text \<open>The frame the cast sampler is given in the examples: the series B (id 2), then the
  movies A (id 1) and C (id 3).\<close>

definition example_df :: "trending_row list" where
  "example_df = normalize_trending [rec_A, rec_B, rec_C] []"

text \<open>A normalized frame of three titles with their genres: \<open>A\<close> has the genres 10 and 18,
  \<open>B\<close> has none, \<open>C\<close> has the genre 7, which the map does not know.\<close>

definition example_genre_df :: "normalized_row list" where
  "example_genre_df =
     normalize_results
       [rec_A\<lparr> raw_genre_ids := Some [10, 18] \<rparr>, rec_B\<lparr> raw_genre_ids := Some [] \<rparr>,
        rec_C\<lparr> raw_genre_ids := Some [7] \<rparr>]
       [(10, ''Horror''), (18, ''Drama'')]"

text \<open>The arguments of an example run, and two worlds in which an earlier run, of the week
  before, has left a history of one row: the row of the movie \<open>A\<close>, and the row of a
  movie whose title is \<open>NA\<close>.\<close>

definition example_args :: args where
  "example_args = \<lparr> media = ''all'', window = ''week'', cast_sample = 8 \<rparr>"

definition written_row :: "result_record \<Rightarrow> csv_row" where
  "written_row r = map_text write_cell (frame_row (add_week ''2024-04-29'' (trending_row [] r)))"

definition old_row :: csv_row where
  "old_row = written_row rec_A"

definition history_world :: world where
  "history_world =
     tmdb_world\<lparr> files := [''trending_all_week_history.csv'' \<mapsto> TableFile [old_row]] \<rparr>"

definition na_row :: csv_row where
  "na_row = written_row (rec_A\<lparr> raw_title := Some ''NA'' \<rparr>)"

definition na_history_world :: world where
  "na_history_world =
     tmdb_world\<lparr> files := [''trending_all_week_history.csv'' \<mapsto> TableFile [na_row]] \<rparr>"

text \<open>The rows of a table file, for the examples.\<close>

definition table_rows :: "file_content option \<Rightarrow> csv_row list" where
  "table_rows f = (case f of Some (TableFile rows) \<Rightarrow> rows | _ \<Rightarrow> [])"

section \<open>Properties of the normalizer and the expander\<close>

lemma map_insort_key_cong:
  assumes "g (h j) = k j" and "\<forall>i\<in>set js. g (h i) = k i"
  shows "map h (insort_key k j js) = insort_key g (h j) (map h js)"
  using assms by (induction js) auto

lemma map_sort_key_cong:
  "\<forall>i\<in>set js. g (h i) = k i \<Longrightarrow> map h (sort_key k js) = sort_key g (map h js)"
  by (induction js) (auto simp: map_insort_key_cong)

lemma mergesort_take: "map (\<lambda>j. xs ! j) (mergesort (map f xs)) = sort_key f xs"
proof -
  have "\<forall>i\<in>set [0..<length xs]. f (xs ! i) = map f xs ! i" by simp
  then have "map (\<lambda>j. xs ! j) (sort_key (\<lambda>i. map f xs ! i) [0..<length xs]) = sort_key f (map (\<lambda>j. xs ! j) [0..<length xs])"
    by (rule map_sort_key_cong)
  then show ?thesis by (simp add: mergesort_def map_nth)
qed

lemma nargsort_mergesort:
  "nargsort mergesort items =
     rev (sort_key (\<lambda>i. the (items ! i)) (rev (filter (\<lambda>i. items ! i \<noteq> None) [0..<length items])))
     @ filter (\<lambda>i. items ! i = None) [0..<length items]"
  unfolding nargsort_def Let_def by (simp only: mergesort_take)

lemma mset_nargsort_mergesort: "mset (nargsort mergesort items) = mset [0..<length items]"
proof -
  let ?idx = "[0..<length items]"
  have "mset (nargsort mergesort items) =
        filter_mset (\<lambda>i. items ! i \<noteq> None) (mset ?idx) + filter_mset (\<lambda>i. \<not> items ! i \<noteq> None) (mset ?idx)"
    unfolding nargsort_mergesort by (simp only: mset_append mset_rev mset_sort mset_filter not_not)
  then show ?thesis by (simp only: multiset_partition [symmetric])
qed

lemma ties_sorted:
  "(\<And>k. sorted_wrt (<) (filter (\<lambda>i. f i = k) xs)) \<Longrightarrow> sorted_wrt (\<lambda>i j. f i = f j \<longrightarrow> i < (j::nat)) xs"
proof (induction xs)
  case Nil then show ?case by simp
next
  case (Cons a xs)
  have tl: "sorted_wrt (<) (filter (\<lambda>i. f i = k) xs)" for k
    using Cons.prems [of k] by (auto split: if_splits)
  have hd: "\<forall>b\<in>set xs. f a = f b \<longrightarrow> a < b"
    using Cons.prems [of "f a"] by auto
  show ?case using Cons.IH tl hd by simp
qed

lemma stable_desc: 
  assumes "sorted_wrt (<) (xs :: nat list)"
  shows "sorted_wrt (\<lambda>i j. f i = f j \<longrightarrow> i < j) (rev (sort_key f (rev xs)))"
proof (rule ties_sorted)
  fix k
  have "filter (\<lambda>i. f i = k) (rev (sort_key f (rev xs))) = filter (\<lambda>i. f i = k) xs"
    by (simp add: rev_filter [symmetric] sort_key_stable)
  then show "sorted_wrt (<) (filter (\<lambda>i. f i = k) (rev (sort_key f (rev xs))))"
    using assms by (simp add: sorted_wrt_filter)
qed

lemma desc_sorted:
  "sorted_wrt (\<lambda>i j. desc_na_last (ps ! i) (ps ! j)) (nargsort mergesort ps)"
proof -
  let ?f = "\<lambda>i. the (ps ! i)"
  let ?xs = "filter (\<lambda>i. ps ! i \<noteq> None) [0..<length ps]"
  let ?A = "rev (sort_key ?f (rev ?xs))"
  let ?B = "filter (\<lambda>i. ps ! i = None) [0..<length ps]"
  have "sorted (map ?f (sort_key ?f (rev ?xs)))" by (rule sorted_sort_key)
  then have "sorted_wrt (\<lambda>i j. ?f i \<le> ?f j) (sort_key ?f (rev ?xs))"
    by (simp only: sorted_map)
  then have 1: "sorted_wrt (\<lambda>i j. ?f j \<le> ?f i) ?A"
    by (simp only: sorted_wrt_rev)
  have 2: "desc_na_last (ps ! i) (ps ! j)" if "i \<in> set ?A" "j \<in> set ?A" "?f j \<le> ?f i" for i j
  proof -
    from that obtain a b where "ps ! i = Some a" "ps ! j = Some b" by auto
    with that show ?thesis by simp
  qed
  have A: "sorted_wrt (\<lambda>i j. desc_na_last (ps ! i) (ps ! j)) ?A"
    by (rule sorted_wrt_mono_rel [OF 2 1])
  have 3: "desc_na_last (ps ! i) (ps ! j)" if "j \<in> set ?B" for i j
    using that by simp
  have B: "sorted_wrt (\<lambda>i j. desc_na_last (ps ! i) (ps ! j)) ?B"
    by (rule sorted_wrt_mono_rel [OF 3 sorted_wrt_true])
  have AB: "\<forall>a\<in>set ?A. \<forall>b\<in>set ?B. desc_na_last (ps ! a) (ps ! b)"
    using 3 by blast
  show ?thesis unfolding nargsort_mergesort sorted_wrt_append
    using A B AB by blast
qed

lemma stable_sorted:
  "sorted_wrt (\<lambda>i j. ps ! i = ps ! j \<longrightarrow> i < j) (nargsort mergesort ps)"
proof -
  let ?f = "\<lambda>i. the (ps ! i)"
  let ?xs = "filter (\<lambda>i. ps ! i \<noteq> None) [0..<length ps]"
  let ?A = "rev (sort_key ?f (rev ?xs))"
  let ?B = "filter (\<lambda>i. ps ! i = None) [0..<length ps]"
  have "sorted_wrt (<) ?xs" by (simp add: sorted_wrt_filter)
  then have 1: "sorted_wrt (\<lambda>i j. ?f i = ?f j \<longrightarrow> i < j) ?A" by (rule stable_desc)
  have 2: "ps ! i = ps ! j \<longrightarrow> i < j" if "?f i = ?f j \<longrightarrow> i < j" for i j :: nat
    using that by auto
  have A: "sorted_wrt (\<lambda>i j. ps ! i = ps ! j \<longrightarrow> i < j) ?A"
    by (rule sorted_wrt_mono_rel [OF 2 1])
  have 3: "sorted_wrt (<) ?B" by (simp add: sorted_wrt_filter)
  have 4: "ps ! i = ps ! j \<longrightarrow> i < j" if "i < j" for i j :: nat
    using that by simp
  have B: "sorted_wrt (\<lambda>i j. ps ! i = ps ! j \<longrightarrow> i < j) ?B"
    by (rule sorted_wrt_mono_rel [OF 4 3])
  have AB: "\<forall>a\<in>set ?A. \<forall>b\<in>set ?B. ps ! a = ps ! b \<longrightarrow> a < b" by auto
  show ?thesis unfolding nargsort_mergesort sorted_wrt_append
    using A B AB by blast
qed

lemma nargsort_mergesort_bound: "i \<in> set (nargsort mergesort items) \<Longrightarrow> i < length items"
proof -
  assume "i \<in> set (nargsort mergesort items)"
  then have "i \<in># mset (nargsort mergesort items)" by simp
  then have "i \<in># mset [0..<length items]" by (simp only: mset_nargsort_mergesort)
  then show ?thesis by simp
qed

lemma sort_values_mergesort_map:
  "sort_values mergesort by (map f xs) = map (\<lambda>i. f (xs ! i)) (nargsort mergesort (map (\<lambda>x. by (f x)) xs))"
proof -
  have "\<forall>i\<in>set (nargsort mergesort (map (\<lambda>x. by (f x)) xs)). i < length xs"
    using nargsort_mergesort_bound [of _ "map (\<lambda>x. by (f x)) xs"] by simp
  then show ?thesis by (simp add: sort_values_def comp_def)
qed

lemma nargsort_Nil: "nargsort mergesort [] = []"
  by (simp add: nargsort_def mergesort_def)

lemma normalize_trending_indexer:
  "normalize_trending results gm =
     map (\<lambda>i. trending_row gm (results ! i)) (nargsort mergesort (map raw_popularity results))"
proof (cases "results = []")
  case True
  then show ?thesis by (simp add: normalize_trending_def nargsort_Nil)
next
  case False
  have "(\<lambda>x. popularity (trending_row gm x)) = raw_popularity"
    by (simp add: trending_row_def fun_eq_iff)
  with False show ?thesis
    by (simp add: normalize_trending_def sort_values_mergesort_map)
qed

lemma normalize_results_indexer:
  "normalize_results results gm =
     map (\<lambda>i. results_row gm (results ! i)) (nargsort mergesort (map raw_popularity results))"
proof (cases "results = []")
  case True
  then show ?thesis by (simp add: normalize_results_def nargsort_Nil)
next
  case False
  have "(\<lambda>x. popularity (results_row gm x)) = raw_popularity"
    by (simp add: results_row_def fun_eq_iff)
  with False show ?thesis
    by (simp add: normalize_results_def sort_values_mergesort_map)
qed

lemma length_nargsort_mergesort: "length (nargsort mergesort items) = length items"
proof -
  have "size (mset (nargsort mergesort items)) = size (mset [0..<length items])"
    by (simp only: mset_nargsort_mergesort)
  then show ?thesis by simp
qed

text \<open>
  \<^bold>\<open>Claim C1.\<close> For every list of raw result records and every genre map, both normalizers
  return exactly one row per input record: the result is as long as the input. No
  record is dropped and no error is raised (the functions are total) when fields are
  missing or genre identifiers are not in the map; the record with no field at all
  becomes the row whose columns are all missing, with empty \<open>genres\<close> and \<open>tmdb_url\<close>, and
  a genre identifier the map does not have is written as its number.
\<close>

theorem normalize_row_count:
  "length (normalize_trending results genre_map) = length results \<and>
   length (normalize_results results genre_map) = length results \<and>
   normalize_results [no_fields] genre_map =
     [\<lparr> row_id = None, media_type = None, title = None, date = None, popularity = None,
        vote_average = None, vote_count = None, original_language = None, genres = '''' \<rparr>] \<and>
   normalize_trending [no_fields] genre_map =
     [\<lparr> row_id = None, media_type = None, title = None, date = None, popularity = None,
        vote_average = None, vote_count = None, original_language = None, genres = '''',
        overview = None, poster_path = None, backdrop_path = None, tmdb_url = '''' \<rparr>] \<and>
   map genres (normalize_results [no_fields\<lparr> raw_genre_ids := Some [10, 7] \<rparr>] [(10, ''Horror'')]) =
     [''Horror; 7'']"
proof -
  have idx: "nargsort mergesort [None :: rat option] = [0]"
    by (simp add: nargsort_def mergesort_def)
  have "raw_popularity no_fields = None"
    by (simp add: no_fields_def)
  then have "nargsort mergesort (map raw_popularity [no_fields]) = [0]"
    and "nargsort mergesort (map raw_popularity [no_fields\<lparr> raw_genre_ids := Some [10, 7] \<rparr>]) = [0]"
    using idx by simp_all
  then show ?thesis
    by (simp add: normalize_trending_indexer normalize_results_indexer length_nargsort_mergesort
        results_row_def trending_row_def genre_names_def py_or_def no_fields_def
        dict_get_def str_int_def str_nat.simps digit_char_def)
qed

text \<open>
  \<^bold>\<open>Claim C4.\<close> Normalization sorts the built rows descending by popularity with a stable
  sort. Let \<open>ps\<close> be the popularity values of the input records and \<open>idx\<close> the indexer pandas
  computes from \<open>ps\<close> alone. The output is the list of the built rows taken in the order
  \<open>idx\<close>, which is a permutation of the input positions, descending by popularity with
  the missing values last, and stable: of two positions with identical popularity the
  smaller one comes first, so such rows keep their relative input order. A second
  input \<open>results'\<close> with the same popularity at every position (the first input with
  rows of equal popularity permuted among their positions) is reordered by the very
  same \<open>idx\<close>.
\<close>

theorem normalize_sort_stable:
  assumes "map raw_popularity results' = map raw_popularity results"
  shows "let ps = map raw_popularity results; idx = nargsort mergesort ps in
           normalize_trending results gm = map (\<lambda>i. trending_row gm (results ! i)) idx \<and>
           normalize_results results gm = map (\<lambda>i. results_row gm (results ! i)) idx \<and>
           normalize_trending results' gm = map (\<lambda>i. trending_row gm (results' ! i)) idx \<and>
           normalize_results results' gm = map (\<lambda>i. results_row gm (results' ! i)) idx \<and>
           mset idx = mset [0..<length results] \<and>
           sorted_wrt (\<lambda>i j. desc_na_last (ps ! i) (ps ! j)) idx \<and>
           sorted_wrt (\<lambda>i j. ps ! i = ps ! j \<longrightarrow> i < j) idx"
proof -
  have "mset (nargsort mergesort (map raw_popularity results)) = mset [0..<length results]"
    using mset_nargsort_mergesort [of "map raw_popularity results"] by simp
  then show ?thesis
    unfolding Let_def
    using assms desc_sorted [of "map raw_popularity results"] stable_sorted [of "map raw_popularity results"]
    by (simp only: normalize_trending_indexer normalize_results_indexer simp_thms)
qed

text \<open>At \<open>[A, B, C]\<close> with popularity 5, 7, 5, and at the same list with \<open>A\<close> and \<open>C\<close> swapped.\<close>

theorem normalize_sort_stable_witness:
  "map raw_popularity [rec_C, rec_B, rec_A] = map raw_popularity [rec_A, rec_B, rec_C] \<and>
   map title (normalize_results [rec_A, rec_B, rec_C] []) = [Some ''B'', Some ''A'', Some ''C''] \<and>
   map title (normalize_results [rec_C, rec_B, rec_A] []) = [Some ''B'', Some ''C'', Some ''A''] \<and>
   map title (normalize_trending [rec_A, rec_B, rec_C] []) = [Some ''B'', Some ''A'', Some ''C''] \<and>
   map title (normalize_trending [rec_C, rec_B, rec_A] []) = [Some ''B'', Some ''C'', Some ''A'']"
proof -
  have h: "map raw_popularity [rec_C, rec_B, rec_A] = map raw_popularity [rec_A, rec_B, rec_C]"
    by (simp add: rec_A_def rec_B_def rec_C_def no_fields_def)
  have idx: "nargsort mergesort (map raw_popularity [rec_A, rec_B, rec_C]) = [1, 0, 2]"
    by (simp add: rec_A_def rec_B_def rec_C_def no_fields_def nargsort_def mergesort_def Let_def upt_rec)
  show ?thesis
    using h normalize_sort_stable [OF h, of "[]"]
    unfolding Let_def idx
    by (simp add: rec_A_def rec_B_def rec_C_def no_fields_def results_row_def trending_row_def py_or_def)
qed

lemma strip_Nil: "strip [] = []"
  by (simp add: strip_def)

lemma g_list_spec_tokens: "g_list s = spec_tokens s"
proof -
  have "(\<lambda>x. x \<noteq> [] \<and> strip x \<noteq> []) = (\<lambda>x. strip x \<noteq> [])"
    using strip_Nil by (auto simp: fun_eq_iff)
  then show ?thesis by (simp add: g_list_def spec_tokens_def filter_map comp_def)
qed

lemma expand_by_genre_concat:
  "expand_by_genre df =
     concat (map (\<lambda>r. if spec_tokens (genres r) = [] then [\<lparr> source_row = r, genre = '''' \<rparr>]
                       else map (\<lambda>g. \<lparr> source_row = r, genre = g \<rparr>) (spec_tokens (genres r))) df)"
  by (induction df) (simp_all add: g_list_spec_tokens)

lemma expand_by_genre_length:
  "length (expand_by_genre df) = sum_list (map (\<lambda>r. max 1 (length (spec_tokens (genres r)))) df)"
proof (induction df)
  case Nil
  then show ?case by simp
next
  case (Cons r df)
  have "length (if spec_tokens (genres r) = [] then [\<lparr> source_row = r, genre = '''' \<rparr>]
                else map (\<lambda>g. \<lparr> source_row = r, genre = g \<rparr>) (spec_tokens (genres r)))
          = max 1 (length (spec_tokens (genres r)))"
    by (cases "spec_tokens (genres r)") simp_all
  with Cons show ?case by (cases "spec_tokens (genres r)") (simp_all add: g_list_spec_tokens)
qed

lemma expand_by_genre_ge: "length df \<le> length (expand_by_genre df)"
proof -
  have "length df = sum_list (map (\<lambda>r. 1) df)"
    by (induction df) simp_all
  also have "\<dots> \<le> sum_list (map (\<lambda>r. max 1 (length (spec_tokens (genres r)))) df)"
    by (rule sum_list_mono) simp
  finally show ?thesis by (simp only: expand_by_genre_length)
qed

text \<open>
  \<^bold>\<open>Claim C2.\<close> Let \<open>k\<close> be the number of tokens of a row's joined genre string (split on the
  semicolon, trimmed, empty tokens dropped: \<open>spec_tokens\<close>). \<open>expand_by_genre\<close> emits for that
  row exactly \<open>k\<close> rows, one per token in order, each the source row with the token as its
  \<open>genre\<close>; when \<open>k = 0\<close> it emits exactly one row with the empty \<open>genre\<close>. So the output has
  \<open>max 1 k\<close> rows per input row, and at least as many rows as the input. What a token
  is, is fixed at four strings: two names, names between blank and empty tokens, the
  empty string, and a string of blanks and a semicolon.
\<close>

theorem expand_by_genre_rows:
  "expand_by_genre df =
     concat (map (\<lambda>r. if spec_tokens (genres r) = [] then [\<lparr> source_row = r, genre = '''' \<rparr>]
                       else map (\<lambda>g. \<lparr> source_row = r, genre = g \<rparr>) (spec_tokens (genres r))) df) \<and>
   length (expand_by_genre df) = sum_list (map (\<lambda>r. max 1 (length (spec_tokens (genres r)))) df) \<and>
   length df \<le> length (expand_by_genre df) \<and>
   spec_tokens ''Horror; Drama'' = [''Horror'', ''Drama''] \<and>
   spec_tokens '' Sci-Fi ;; Drama;  '' = [''Sci-Fi'', ''Drama''] \<and>
   spec_tokens '''' = [] \<and>
   spec_tokens ''  ; '' = []"
proof -
  have 1: "spec_tokens ''Horror; Drama'' = [''Horror'', ''Drama'']" by code_simp
  have 2: "spec_tokens '' Sci-Fi ;; Drama;  '' = [''Sci-Fi'', ''Drama'']" by code_simp
  have 3: "spec_tokens '''' = []" by code_simp
  have 4: "spec_tokens ''  ; '' = []" by code_simp
  from expand_by_genre_concat [of df] expand_by_genre_length [of df] expand_by_genre_ge [of df]
    1 2 3 4
  show ?thesis by (intro conjI)
qed

text \<open>At the frame of three titles: \<open>A\<close> with the genres 10 and 18 (Horror, Drama), \<open>B\<close> with
  none, \<open>C\<close> with the genre 7, which the map does not have. \<open>A\<close> gives two rows, \<open>B\<close> one row
  with the empty genre, \<open>C\<close> one row.\<close>

theorem expand_by_genre_rows_witness:
  "map genres example_genre_df = ['''', ''Horror; Drama'', ''7''] \<and>
   map (\<lambda>e. (title (source_row e), genre e)) (expand_by_genre example_genre_df) =
     [(Some ''B'', ''''), (Some ''A'', ''Horror''), (Some ''A'', ''Drama''), (Some ''C'', ''7'')] \<and>
   length (expand_by_genre example_genre_df) = 1 + 2 + 1"
proof -
  have g: "map genres example_genre_df = ['''', ''Horror; Drama'', ''7'']"
    by code_simp
  let ?rows = "\<lambda>r :: normalized_row.
        if spec_tokens (genres r) = [] then [\<lparr> source_row = r, genre = '''' \<rparr>]
        else map (\<lambda>g. \<lparr> source_row = r, genre = g \<rparr>) (spec_tokens (genres r))"
  have "map (\<lambda>e. (title (source_row e), genre e)) (concat (map ?rows example_genre_df)) =
     [(Some ''B'', ''''), (Some ''A'', ''Horror''), (Some ''A'', ''Drama''), (Some ''C'', ''7'')]"
    by code_simp
  with expand_by_genre_rows [of example_genre_df]
  have e: "map (\<lambda>e. (title (source_row e), genre e)) (expand_by_genre example_genre_df) =
     [(Some ''B'', ''''), (Some ''A'', ''Horror''), (Some ''A'', ''Drama''), (Some ''C'', ''7'')]"
    by simp
  then have "length (map (\<lambda>e. (title (source_row e), genre e)) (expand_by_genre example_genre_df)) = 4"
    by simp
  then have l: "length (expand_by_genre example_genre_df) = 1 + 2 + 1" by simp
  from g e l show ?thesis by (intro conjI)
qed

section \<open>Properties of the fetcher\<close>

lemma fetch_json_loop_gets:
  "fetch_json_loop url params attempts last_resp w = (res, w') \<Longrightarrow>
   \<exists>evs. trace w' = trace w @ evs \<and> length (filter (\<lambda>e. e = Get url params) evs) \<le> length attempts
         \<and> set evs \<subseteq> insert (Get url params) (range Sleep)"
proof (induction attempts arbitrary: last_resp w)
  case Nil
  then show ?case by (auto split: option.splits)
next
  case (Cons attempt rest)
  show ?case
  proof (cases "server w (trace w) url params")
    case None
    with Cons.prems show ?thesis by (auto simp: requests_get_def)
  next
    case (Some resp)
    show ?thesis
    proof (cases "status_code resp = 200")
      case True
      with Some Cons.prems show ?thesis
        by (auto simp: requests_get_def split: option.splits)
    next
      case False
      let ?w1 = "sleep (of_int (1 + attempt)) (w\<lparr>trace := trace w @ [Get url params]\<rparr>)"
      from False Some Cons.prems
      have "fetch_json_loop url params rest (Some resp) ?w1 = (res, w')"
        by (simp add: requests_get_def)
      from Cons.IH [OF this] obtain evs where
        evs: "trace w' = trace ?w1 @ evs"
             "length (filter (\<lambda>e. e = Get url params) evs) \<le> length rest"
             "set evs \<subseteq> insert (Get url params) (range Sleep)"
        by blast
      let ?evs = "[Get url params, Sleep (of_int (1 + attempt))] @ evs"
      have "trace w' = trace w @ ?evs" using evs(1) by (simp add: sleep_def)
      moreover have "length (filter (\<lambda>e. e = Get url params) ?evs) \<le> length (attempt # rest)"
        using evs(2) by simp
      moreover have "set ?evs \<subseteq> insert (Get url params) (range Sleep)"
        using evs(3) by auto
      ultimately show ?thesis by blast
    qed
  qed
qed

lemma fetch_json_gets:
  "fetch_json path params w = (res, w') \<Longrightarrow>
   \<exists>evs. trace w' = trace w @ evs \<and>
         length (filter (\<lambda>e. e = Get (API_BASE @ path) params) evs) \<le> 3 \<and>
         set evs \<subseteq> insert (Get (API_BASE @ path) params) (range Sleep)"
proof -
  assume run: "fetch_json path params w = (res, w')"
  obtain r w1 where loop: "fetch_json_loop (API_BASE @ path) params [0, 1, 2] None w = (r, w1)"
    by (cases "fetch_json_loop (API_BASE @ path) params [0, 1, 2] None w")
  from run loop have "trace w' = trace w1"
    by (auto simp: fetch_json_def)
  with fetch_json_loop_gets [OF loop] show ?thesis
    by (simp add: numeral_3_eq_3)
qed

lemma fetch_json_cases:
  "let url = API_BASE @ path; g = Get url params;
       t0 = trace w; t1 = t0 @ [g, Sleep 1]; t2 = t1 @ [g, Sleep 2];
       a0 = server w t0 url params; a1 = server w t1 url params; a2 = server w t2 url params;
       parsed = (\<lambda>r. case resp_json r of None \<Rightarrow> Inl JSONDecodeError | Some j \<Rightarrow> Inr j);
       failed = (\<lambda>a. \<exists>r. a = Some r \<and> status_code r \<noteq> 200);
       (res, w') = fetch_json path params w
   in (\<forall>r. a0 = Some r \<and> status_code r = 200 \<longrightarrow> res = parsed r \<and> trace w' = t0 @ [g]) \<and>
      (\<forall>r. failed a0 \<and> a1 = Some r \<and> status_code r = 200 \<longrightarrow> res = parsed r \<and> trace w' = t1 @ [g]) \<and>
      (\<forall>r. failed a0 \<and> failed a1 \<and> a2 = Some r \<and> status_code r = 200 \<longrightarrow>
           res = parsed r \<and> trace w' = t2 @ [g]) \<and>
      (\<forall>r. failed a0 \<and> failed a1 \<and> a2 = Some r \<and> status_code r \<noteq> 200 \<longrightarrow>
           res = Inl (RuntimeError (''HTTP '' @ str_int (status_code r) @ '' for '' @ url @ '': ''
                                     @ take 300 (resp_text r))) \<and>
           trace w' = t2 @ [g, Sleep 3])"
  by (auto simp: fetch_json_def requests_get_def sleep_def Let_def split: option.splits prod.splits)

text \<open>
  \<^bold>\<open>Claim C5.\<close> \<open>fetch_json\<close> issues at most three GET requests, all for the same URL and
  parameters, and nothing else but sleeps. Let \<open>a0\<close>, \<open>a1\<close>, \<open>a2\<close> be the server's answers to
  the first, second and third attempt. The first attempt answered with status 200 ends the
  call: the result is the parsed body (\<open>JSONDecodeError\<close> when the body does not parse),
  and the trace shows one sleep of 1, 2, ... seconds after each earlier, non-200 answer.
  When all three answers are non-200 the trace is GET, 1 s, GET, 2 s, GET, 3 s (the third
  sleep follows the third answer and precedes the raise), and the call raises
  \<open>RuntimeError\<close> with the last status code and the first 300 characters of the last body:
  the result is an error, never a value.
\<close>

theorem fetch_json_retries:
  "let url = API_BASE @ path; g = Get url params;
       t0 = trace w; t1 = t0 @ [g, Sleep 1]; t2 = t1 @ [g, Sleep 2];
       a0 = server w t0 url params; a1 = server w t1 url params; a2 = server w t2 url params;
       parsed = (\<lambda>r. case resp_json r of None \<Rightarrow> Inl JSONDecodeError | Some j \<Rightarrow> Inr j);
       failed = (\<lambda>a. \<exists>r. a = Some r \<and> status_code r \<noteq> 200);
       (res, w') = fetch_json path params w
   in (\<forall>r. a0 = Some r \<and> status_code r = 200 \<longrightarrow> res = parsed r \<and> trace w' = t0 @ [g]) \<and>
      (\<forall>r. failed a0 \<and> a1 = Some r \<and> status_code r = 200 \<longrightarrow> res = parsed r \<and> trace w' = t1 @ [g]) \<and>
      (\<forall>r. failed a0 \<and> failed a1 \<and> a2 = Some r \<and> status_code r = 200 \<longrightarrow>
           res = parsed r \<and> trace w' = t2 @ [g]) \<and>
      (\<forall>r. failed a0 \<and> failed a1 \<and> a2 = Some r \<and> status_code r \<noteq> 200 \<longrightarrow>
           res = Inl (RuntimeError (''HTTP '' @ str_int (status_code r) @ '' for '' @ url @ '': ''
                                     @ take 300 (resp_text r))) \<and>
           trace w' = t2 @ [g, Sleep 3]) \<and>
      (\<exists>evs. trace w' = t0 @ evs \<and> length (filter (\<lambda>e. e = g) evs) \<le> 3 \<and>
             set evs \<subseteq> insert g (range Sleep))"
proof -
  obtain res w' where run: "fetch_json path params w = (res, w')"
    by (cases "fetch_json path params w")
  show ?thesis
    using fetch_json_cases [of path params w] fetch_json_gets [OF run]
    unfolding Let_def run prod.case
    by (intro conjI) blast+
qed

text \<open>At a server that is down, and at one that answers 503 twice and then 200.\<close>

theorem fetch_json_retries_witness:
  "fst (fetch_json ''/genre/tv/list'' [] down_world) =
     Inl (RuntimeError (''HTTP 503 for https://api.themoviedb.org/3/genre/tv/list: ''
                          @ replicate 300 (CHR ''x''))) \<and>
   trace (snd (fetch_json ''/genre/tv/list'' [] down_world)) =
     [Get ''https://api.themoviedb.org/3/genre/tv/list'' [], Sleep 1,
      Get ''https://api.themoviedb.org/3/genre/tv/list'' [], Sleep 2,
      Get ''https://api.themoviedb.org/3/genre/tv/list'' [], Sleep 3] \<and>
   fst (fetch_json ''/genre/tv/list'' [] flaky_world) = Inr empty_payload \<and>
   trace (snd (fetch_json ''/genre/tv/list'' [] flaky_world)) =
     [Get ''https://api.themoviedb.org/3/genre/tv/list'' [], Sleep 1,
      Get ''https://api.themoviedb.org/3/genre/tv/list'' [], Sleep 2,
      Get ''https://api.themoviedb.org/3/genre/tv/list'' []]"
  using fetch_json_retries [of "''/genre/tv/list''" "[]" down_world]
        fetch_json_retries [of "''/genre/tv/list''" "[]" flaky_world]
  by (simp add: Let_def split_beta down_world_def flaky_world_def quiet_world_def API_BASE_def
       str_int_def str_nat.simps digit_char_def)

section \<open>Properties of the paginated loops\<close>

lemma fetch_json_loop_calls:
  "fetch_json_loop url params attempts last_resp w = (res, w') \<Longrightarrow> calls w' = calls w"
proof (induction attempts arbitrary: last_resp w)
  case Nil
  then show ?case by (auto split: option.splits)
next
  case (Cons attempt rest)
  show ?case
  proof (cases "server w (trace w) url params")
    case None
    with Cons.prems show ?thesis by (auto simp: requests_get_def)
  next
    case (Some resp)
    show ?thesis
    proof (cases "status_code resp = 200")
      case True
      with Some Cons.prems show ?thesis
        by (auto simp: requests_get_def split: option.splits)
    next
      case False
      with Some Cons.prems
      have "fetch_json_loop url params rest (Some resp)
              (sleep (of_int (1 + attempt)) (w\<lparr>trace := trace w @ [Get url params]\<rparr>)) = (res, w')"
        by (simp add: requests_get_def)
      from Cons.IH [OF this] show ?thesis by (simp add: sleep_def)
    qed
  qed
qed

lemma fetch_json_calls:
  assumes "fetch_json path params w = (r, w')"
  shows "calls w' = calls w @ [(path, params, r)]"
proof -
  obtain r1 w1 where loop: "fetch_json_loop (API_BASE @ path) params [0, 1, 2] None w = (r1, w1)"
    by (cases "fetch_json_loop (API_BASE @ path) params [0, 1, 2] None w")
  with assms have "r = r1" "calls w' = calls w1 @ [(path, params, r)]"
    by (auto simp: fetch_json_def)
  with fetch_json_loop_calls [OF loop] show ?thesis by simp
qed

lemma calls_sleep: "calls (sleep s w) = calls w"
  by (simp add: sleep_def)

lemma get_trending_loop_calls:
  "get_trending_loop path pages acc w = (res, w') \<Longrightarrow>
   \<exists>outs. length outs \<le> length pages \<and>
     calls w' = calls w @ map (\<lambda>(page, out). (path, [(''page'', PInt page)], out)) (zip pages outs) \<and>
     list_all (\<lambda>out. outcome_results out \<noteq> []) (butlast outs) \<and>
     (case res of
        Inl e \<Rightarrow> outs \<noteq> [] \<and> last outs = Inl e
      | Inr rs \<Rightarrow> list_all (\<lambda>out. \<not> isl out) outs \<and> rs = acc @ concat (map outcome_results outs) \<and>
                 (length outs < length pages \<longrightarrow> outs \<noteq> [] \<and> outcome_results (last outs) = []))"
proof (induction pages arbitrary: acc w)
  case Nil
  then show ?case by auto
next
  case (Cons page rest)
  obtain r w1 where f: "fetch_json path [(''page'', PInt page)] w = (r, w1)"
    by (cases "fetch_json path [(''page'', PInt page)] w")
  note c1 = fetch_json_calls [OF f]
  show ?case
  proof (cases r)
    case (Inl e)
    with f Cons.prems have "res = Inl e" "w' = w1" by auto
    with c1 Inl show ?thesis
      by (intro exI [of _ "[Inl e]"]) simp
  next
    case (Inr data)
    show ?thesis
    proof (cases "get_results data = []")
      case True
      with f Inr Cons.prems have "res = Inr acc" "w' = w1" by auto
      with c1 Inr True show ?thesis
        by (intro exI [of _ "[Inr data]"]) (simp add: outcome_results_def)
    next
      case False
      with f Inr Cons.prems
      have "get_trending_loop path rest (acc @ get_results data) (sleep (3 / 10) w1) = (res, w')"
        by simp
      from Cons.IH [OF this] obtain outs where
        outs: "length outs \<le> length rest"
          "calls w' = calls (sleep (3 / 10) w1)
             @ map (\<lambda>(page, out). (path, [(''page'', PInt page)], out)) (zip rest outs)"
          "list_all (\<lambda>out. outcome_results out \<noteq> []) (butlast outs)"
          "case res of
             Inl e \<Rightarrow> outs \<noteq> [] \<and> last outs = Inl e
           | Inr rs \<Rightarrow> list_all (\<lambda>out. \<not> isl out) outs \<and>
                rs = (acc @ get_results data) @ concat (map outcome_results outs) \<and>
                (length outs < length rest \<longrightarrow> outs \<noteq> [] \<and> outcome_results (last outs) = [])"
        by blast
      have ne: "outcome_results (Inr data) \<noteq> []"
        using False by (simp add: outcome_results_def)
      show ?thesis
      proof (intro exI [of _ "Inr data # outs"] conjI)
        show "length (Inr data # outs) \<le> length (page # rest)" using outs(1) by simp
        show "calls w' = calls w @ map (\<lambda>(page, out). (path, [(''page'', PInt page)], out))
                                      (zip (page # rest) (Inr data # outs))"
          using outs(2) c1 Inr by (simp add: calls_sleep)
        show "list_all (\<lambda>out. outcome_results out \<noteq> []) (butlast (Inr data # outs))"
          using outs(3) ne by simp
        show "case res of
                Inl e \<Rightarrow> Inr data # outs \<noteq> [] \<and> last (Inr data # outs) = Inl e
              | Inr rs \<Rightarrow> list_all (\<lambda>out. \<not> isl out) (Inr data # outs) \<and>
                  rs = acc @ concat (map outcome_results (Inr data # outs)) \<and>
                  (length (Inr data # outs) < length (page # rest) \<longrightarrow>
                     Inr data # outs \<noteq> [] \<and> outcome_results (last (Inr data # outs)) = [])"
          using outs(4) by (cases res) (auto simp: outcome_results_def)
      qed
    qed
  qed
qed

lemma discover_range_loop_calls:
  "discover_range_loop path bp mt pages acc w = (res, w') \<Longrightarrow>
   \<exists>outs. length outs \<le> length pages \<and>
     calls w' = calls w @ map (\<lambda>(page, out). (path, AList.update ''page'' (PInt page) bp, out)) (zip pages outs) \<and>
     list_all (\<lambda>out. outcome_results out \<noteq> []) (butlast outs) \<and>
     (case res of
        Inl e \<Rightarrow> outs \<noteq> [] \<and> last outs = Inl e
      | Inr rs \<Rightarrow> list_all (\<lambda>out. \<not> isl out) outs \<and>
                 rs = acc @ map (\<lambda>r. r\<lparr>raw_media_type := Some mt\<rparr>) (concat (map outcome_results outs)) \<and>
                 (length outs < length pages \<longrightarrow> outs \<noteq> [] \<and> outcome_results (last outs) = []))"
proof (induction pages arbitrary: acc w)
  case Nil
  then show ?case by auto
next
  case (Cons page rest)
  let ?params = "AList.update ''page'' (PInt page) bp"
  let ?stamp = "\<lambda>r. r\<lparr>raw_media_type := Some mt\<rparr>"
  obtain r w1 where f: "fetch_json path ?params w = (r, w1)"
    by (cases "fetch_json path ?params w")
  note c1 = fetch_json_calls [OF f]
  show ?case
  proof (cases r)
    case (Inl e)
    with f Cons.prems have "res = Inl e" "w' = w1" by (auto simp: Let_def)
    with c1 Inl show ?thesis
      by (intro exI [of _ "[Inl e]"]) simp
  next
    case (Inr data)
    show ?thesis
    proof (cases "get_results data = []")
      case True
      with f Inr Cons.prems have "res = Inr acc" "w' = w1" by (auto simp: Let_def)
      with c1 Inr True show ?thesis
        by (intro exI [of _ "[Inr data]"]) (simp add: outcome_results_def)
    next
      case False
      with f Inr Cons.prems
      have "discover_range_loop path bp mt rest (acc @ map ?stamp (get_results data)) (sleep (3 / 10) w1)
              = (res, w')"
        by (simp add: Let_def)
      from Cons.IH [OF this] obtain outs where
        outs: "length outs \<le> length rest"
          "calls w' = calls (sleep (3 / 10) w1)
             @ map (\<lambda>(page, out). (path, AList.update ''page'' (PInt page) bp, out)) (zip rest outs)"
          "list_all (\<lambda>out. outcome_results out \<noteq> []) (butlast outs)"
          "case res of
             Inl e \<Rightarrow> outs \<noteq> [] \<and> last outs = Inl e
           | Inr rs \<Rightarrow> list_all (\<lambda>out. \<not> isl out) outs \<and>
                rs = (acc @ map ?stamp (get_results data)) @ map ?stamp (concat (map outcome_results outs)) \<and>
                (length outs < length rest \<longrightarrow> outs \<noteq> [] \<and> outcome_results (last outs) = [])"
        by blast
      have ne: "outcome_results (Inr data) \<noteq> []"
        using False by (simp add: outcome_results_def)
      show ?thesis
      proof (intro exI [of _ "Inr data # outs"] conjI)
        show "length (Inr data # outs) \<le> length (page # rest)" using outs(1) by simp
        show "calls w' = calls w @ map (\<lambda>(page, out). (path, AList.update ''page'' (PInt page) bp, out))
                                      (zip (page # rest) (Inr data # outs))"
          using outs(2) c1 Inr by (simp add: calls_sleep)
        show "list_all (\<lambda>out. outcome_results out \<noteq> []) (butlast (Inr data # outs))"
          using outs(3) ne by simp
        show "case res of
                Inl e \<Rightarrow> Inr data # outs \<noteq> [] \<and> last (Inr data # outs) = Inl e
              | Inr rs \<Rightarrow> list_all (\<lambda>out. \<not> isl out) (Inr data # outs) \<and>
                  rs = acc @ map ?stamp (concat (map outcome_results (Inr data # outs))) \<and>
                  (length (Inr data # outs) < length (page # rest) \<longrightarrow>
                     Inr data # outs \<noteq> [] \<and> outcome_results (last (Inr data # outs)) = [])"
          using outs(4) by (cases res) (auto simp: outcome_results_def)
      qed
    qed
  qed
qed

lemma take_upto_1: "m \<le> nat n \<Longrightarrow> take m [1..n] = map int [1..<Suc m]"
  by (rule nth_equalityI) (auto simp: nth_upto simp del: upt_Suc)

lemma pagination_specI:
  assumes len: "length outs \<le> nat max_pages"
    and new: "new = map (\<lambda>(page, out). (fst (request page), snd (request page), out)) (zip [1..max_pages] outs)"
    and but: "list_all (\<lambda>out. outcome_results out \<noteq> []) (butlast outs)"
    and res: "case res of
        Inl e \<Rightarrow> outs \<noteq> [] \<and> last outs = Inl e
      | Inr rs \<Rightarrow> list_all (\<lambda>out. \<not> isl out) outs \<and>
                 rs = map stamp (concat (map outcome_results outs)) \<and>
                 (length outs < nat max_pages \<longrightarrow> outs \<noteq> [] \<and> outcome_results (last outs) = [])"
  shows "pagination_spec request stamp max_pages new res"
proof -
  have l: "length new = length outs"
    using len new by simp
  have "map (\<lambda>(path, params, out). out) new = map snd (zip [1..max_pages] outs)"
    unfolding new by (simp add: case_prod_unfold comp_def)
  also have "\<dots> = outs"
    using len by (simp add: map_snd_zip_take)
  finally have o: "map (\<lambda>(path, params, out). out) new = outs" .
  have "map (\<lambda>(path, params, out). (path, params)) new = map request (map fst (zip [1..max_pages] outs))"
    unfolding new by (simp add: case_prod_unfold comp_def)
  also have "map fst (zip [1..max_pages] outs) = take (length outs) [1..max_pages]"
    using len by (simp add: map_fst_zip_take)
  also have "\<dots> = map int [1..<Suc (length outs)]"
    using len by (rule take_upto_1)
  finally have p: "map (\<lambda>(path, params, out). (path, params)) new
                     = map (\<lambda>i. request (int i)) [1..<Suc (length new)]"
    by (simp add: l comp_def)
  show ?thesis
    using len but res p
    unfolding pagination_spec_def Let_def o l
    by (simp del: upt_Suc)
qed

text \<open>
  \<^bold>\<open>Claim C3.\<close> Both paginated loops (\<open>get_trending\<close>, and \<open>discover_range\<close> for a
  media type it has a request for) meet \<open>pagination_spec\<close>, for every path, date range,
  bound \<open>pages\<close> and world: the single-page requests the call adds to the call log ask
  for the pages 1, 2, 3, ... in order; there are at most \<open>pages\<close> of them; only the
  last one can have delivered an empty page, so the loop stops at the first empty page;
  and a call that returns, returns the concatenation of the pages in fetch order (the
  empty page adds nothing), having stopped short of \<open>pages\<close> requests only on an empty
  page. \<open>discover_range\<close> stamps the media type on every record.
\<close>

theorem pagination:
  "(case get_trending mt tw pages w of
      (res, w') \<Rightarrow>
        \<exists>new. calls w' = calls w @ new \<and>
          pagination_spec (\<lambda>page. (''/trending/'' @ mt @ ''/'' @ tw, [(''page'', PInt page)]))
            (\<lambda>r. r) pages new (map_sum (\<lambda>e. e) get_results res)) \<and>
   (\<forall>path base_params. discover_request mt sd ed = Some (path, base_params) \<longrightarrow>
      (case discover_range mt sd ed pages w of
         (res, w') \<Rightarrow>
           \<exists>new. calls w' = calls w @ new \<and>
             pagination_spec (\<lambda>page. (path, AList.update ''page'' (PInt page) base_params))
               (\<lambda>r. r\<lparr>raw_media_type := Some mt\<rparr>) pages new res))"
proof (intro conjI allI impI)
  let ?path = "''/trending/'' @ mt @ ''/'' @ tw"
  obtain r w1 where loop: "get_trending_loop ?path [1..pages] [] w = (r, w1)"
    by (cases "get_trending_loop ?path [1..pages] [] w")
  from get_trending_loop_calls [OF loop] obtain outs where
    outs: "length outs \<le> length [1..pages]"
      "calls w1 = calls w @ map (\<lambda>(page, out). (?path, [(''page'', PInt page)], out)) (zip [1..pages] outs)"
      "list_all (\<lambda>out. outcome_results out \<noteq> []) (butlast outs)"
      "case r of
         Inl e \<Rightarrow> outs \<noteq> [] \<and> last outs = Inl e
       | Inr rs \<Rightarrow> list_all (\<lambda>out. \<not> isl out) outs \<and> rs = [] @ concat (map outcome_results outs) \<and>
                  (length outs < length [1..pages] \<longrightarrow> outs \<noteq> [] \<and> outcome_results (last outs) = [])"
    by blast
  have run: "get_trending mt tw pages w =
               (case r of Inl e \<Rightarrow> Inl e
                | Inr all_results \<Rightarrow> Inr \<lparr>j_results = Some all_results, j_genres = None, j_cast = None\<rparr>, w1)"
    unfolding get_trending_def loop by (cases r) simp_all
  have res: "map_sum (\<lambda>e. e) get_results (fst (get_trending mt tw pages w)) = r"
    unfolding run by (cases r) (simp_all add: get_results_def)
  have "pagination_spec (\<lambda>page. (?path, [(''page'', PInt page)])) (\<lambda>r. r) pages
          (map (\<lambda>(page, out). (?path, [(''page'', PInt page)], out)) (zip [1..pages] outs)) r"
    using outs by (intro pagination_specI [where outs = outs]) (auto split: sum.splits)
  with outs(2) show "case get_trending mt tw pages w of
      (res, w') \<Rightarrow>
        \<exists>new. calls w' = calls w @ new \<and>
          pagination_spec (\<lambda>page. (?path, [(''page'', PInt page)]))
            (\<lambda>r. r) pages new (map_sum (\<lambda>e. e) get_results res)"
    using res unfolding run by auto
next
  fix path base_params
  assume req: "discover_request mt sd ed = Some (path, base_params)"
  obtain r w1 where loop: "discover_range_loop path base_params mt [1..pages] [] w = (r, w1)"
    by (cases "discover_range_loop path base_params mt [1..pages] [] w")
  from discover_range_loop_calls [OF loop] obtain outs where
    outs: "length outs \<le> length [1..pages]"
      "calls w1 = calls w @ map (\<lambda>(page, out). (path, AList.update ''page'' (PInt page) base_params, out))
                               (zip [1..pages] outs)"
      "list_all (\<lambda>out. outcome_results out \<noteq> []) (butlast outs)"
      "case r of
         Inl e \<Rightarrow> outs \<noteq> [] \<and> last outs = Inl e
       | Inr rs \<Rightarrow> list_all (\<lambda>out. \<not> isl out) outs \<and>
                  rs = [] @ map (\<lambda>r. r\<lparr>raw_media_type := Some mt\<rparr>) (concat (map outcome_results outs)) \<and>
                  (length outs < length [1..pages] \<longrightarrow> outs \<noteq> [] \<and> outcome_results (last outs) = [])"
    by blast
  have run: "discover_range mt sd ed pages w = (r, w1)"
    unfolding discover_range_def req option.case prod.case loop by (rule refl)
  have "pagination_spec (\<lambda>page. (path, AList.update ''page'' (PInt page) base_params))
          (\<lambda>r. r\<lparr>raw_media_type := Some mt\<rparr>) pages
          (map (\<lambda>(page, out). (path, AList.update ''page'' (PInt page) base_params, out)) (zip [1..pages] outs)) r"
    using outs by (intro pagination_specI [where outs = outs]) (auto split: sum.splits)
  with outs(2) show "case discover_range mt sd ed pages w of
         (res, w') \<Rightarrow>
           \<exists>new. calls w' = calls w @ new \<and>
             pagination_spec (\<lambda>page. (path, AList.update ''page'' (PInt page) base_params))
               (\<lambda>r. r\<lparr>raw_media_type := Some mt\<rparr>) pages new res"
    unfolding run by auto
qed

text \<open>At the server with two pages: \<open>get_trending\<close> with bound 5 makes three requests
  (page 3 is empty), \<open>discover_range\<close> with bound 2 makes two.\<close>

theorem pagination_witness:
  "discover_request ''tv'' ''2024-01-01'' ''2024-05-06'' =
     Some (''/discover/tv'', [(''sort_by'', PStr ''popularity.desc''),
                               (''first_air_date.gte'', PStr ''2024-01-01''),
                               (''first_air_date.lte'', PStr ''2024-05-06'')]) \<and>
   fst (get_trending ''all'' ''week'' 5 paged_world) =
     Inr \<lparr>j_results = Some [rec_A, rec_B, rec_C], j_genres = None, j_cast = None\<rparr> \<and>
   map (\<lambda>(path, params, out). (path, params, outcome_results out))
       (calls (snd (get_trending ''all'' ''week'' 5 paged_world))) =
     [(''/trending/all/week'', [(''page'', PInt 1)], [rec_A, rec_B]),
      (''/trending/all/week'', [(''page'', PInt 2)], [rec_C]),
      (''/trending/all/week'', [(''page'', PInt 3)], [])] \<and>
   pagination_spec (\<lambda>page. (''/trending/all/week'', [(''page'', PInt page)])) (\<lambda>r. r) 5
     (calls (snd (get_trending ''all'' ''week'' 5 paged_world))) (Inr [rec_A, rec_B, rec_C]) \<and>
   map (\<lambda>(path, params, out). (map_of params ''page'', outcome_results out))
       (calls (snd (discover_range ''tv'' ''2024-01-01'' ''2024-05-06'' 2 paged_world))) =
     [(Some (PInt 1), [rec_A, rec_B]), (Some (PInt 2), [rec_C])] \<and>
   pagination_spec
     (\<lambda>page. (''/discover/tv'', [(''sort_by'', PStr ''popularity.desc''),
                                  (''first_air_date.gte'', PStr ''2024-01-01''),
                                  (''first_air_date.lte'', PStr ''2024-05-06''),
                                  (''page'', PInt page)]))
     (\<lambda>r. r\<lparr>raw_media_type := Some ''tv''\<rparr>) 2
     (calls (snd (discover_range ''tv'' ''2024-01-01'' ''2024-05-06'' 2 paged_world)))
     (fst (discover_range ''tv'' ''2024-01-01'' ''2024-05-06'' 2 paged_world))"
proof -
  have req: "discover_request ''tv'' ''2024-01-01'' ''2024-05-06'' =
     Some (''/discover/tv'', [(''sort_by'', PStr ''popularity.desc''),
                               (''first_air_date.gte'', PStr ''2024-01-01''),
                               (''first_air_date.lte'', PStr ''2024-05-06'')])"
    by (simp add: discover_request_def)
  have c0: "calls paged_world = []"
    by (simp add: paged_world_def quiet_world_def)
  have t: "fst (get_trending ''all'' ''week'' 5 paged_world) =
     Inr \<lparr>j_results = Some [rec_A, rec_B, rec_C], j_genres = None, j_cast = None\<rparr>"
    by (simp add: get_trending_def fetch_json_def requests_get_def sleep_def paged_world_def
        quiet_world_def page_of_def get_results_def Let_def upto.simps)
  have tc: "map (\<lambda>(path, params, out). (path, params, outcome_results out))
       (calls (snd (get_trending ''all'' ''week'' 5 paged_world))) =
     [(''/trending/all/week'', [(''page'', PInt 1)], [rec_A, rec_B]),
      (''/trending/all/week'', [(''page'', PInt 2)], [rec_C]),
      (''/trending/all/week'', [(''page'', PInt 3)], [])]"
    by (simp add: get_trending_def fetch_json_def requests_get_def sleep_def paged_world_def
        quiet_world_def page_of_def get_results_def outcome_results_def Let_def upto.simps)
  have dc: "map (\<lambda>(path, params, out). (map_of params ''page'', outcome_results out))
       (calls (snd (discover_range ''tv'' ''2024-01-01'' ''2024-05-06'' 2 paged_world))) =
     [(Some (PInt 1), [rec_A, rec_B]), (Some (PInt 2), [rec_C])]"
    by (simp add: discover_range_def req fetch_json_def requests_get_def sleep_def paged_world_def
        quiet_world_def page_of_def get_results_def outcome_results_def Let_def upto.simps)
  from pagination [where mt = "''all''" and tw = "''week''" and pages = 5 and w = paged_world
                     and sd = "''2024-01-01''" and ed = "''2024-05-06''"]
  have 1: "pagination_spec (\<lambda>page. (''/trending/all/week'', [(''page'', PInt page)])) (\<lambda>r. r) 5
     (calls (snd (get_trending ''all'' ''week'' 5 paged_world))) (Inr [rec_A, rec_B, rec_C])"
    using t by (auto simp: c0 split_beta get_results_def)
  from pagination [where mt = "''tv''" and tw = "''week''" and pages = 2 and w = paged_world
                     and sd = "''2024-01-01''" and ed = "''2024-05-06''"] req
  have 2: "pagination_spec
     (\<lambda>page. (''/discover/tv'', [(''sort_by'', PStr ''popularity.desc''),
                                  (''first_air_date.gte'', PStr ''2024-01-01''),
                                  (''first_air_date.lte'', PStr ''2024-05-06''),
                                  (''page'', PInt page)]))
     (\<lambda>r. r\<lparr>raw_media_type := Some ''tv''\<rparr>) 2
     (calls (snd (discover_range ''tv'' ''2024-01-01'' ''2024-05-06'' 2 paged_world)))
     (fst (discover_range ''tv'' ''2024-01-01'' ''2024-05-06'' 2 paged_world))"
    by (auto simp: c0 split_beta)
  from req t tc dc 1 2 show ?thesis by (intro conjI)
qed

lemma discover_range_result:
  assumes "discover_range mt sd ed pages w = (Inr rs, w')"
  shows "\<exists>new. calls w' = calls w @ new \<and>
           rs = map (\<lambda>r. r\<lparr>raw_media_type := Some mt\<rparr>)
                  (concat (map (\<lambda>(path, params, out). outcome_results out) new))"
proof (cases "discover_request mt sd ed")
  case None
  with assms show ?thesis by (simp add: discover_range_def)
next
  case (Some req)
  obtain path bp where req: "req = (path, bp)" by (cases req)
  with Some assms have "discover_range_loop path bp mt [1..pages] [] w = (Inr rs, w')"
    by (simp add: discover_range_def)
  from discover_range_loop_calls [OF this] obtain outs where
    outs: "length outs \<le> length [1..pages]"
      "calls w' = calls w @ map (\<lambda>(page, out). (path, AList.update ''page'' (PInt page) bp, out))
                               (zip [1..pages] outs)"
      "rs = map (\<lambda>r. r\<lparr>raw_media_type := Some mt\<rparr>) (concat (map outcome_results outs))"
    by auto
  let ?new = "map (\<lambda>(page, out). (path, AList.update ''page'' (PInt page) bp, out)) (zip [1..pages] outs)"
  have "map (\<lambda>(path, params, out). outcome_results out) ?new
          = map outcome_results (map snd (zip [1..pages] outs))"
    by (simp add: case_prod_unfold comp_def)
  also have "map snd (zip [1..pages] outs) = outs"
    using outs(1) by (simp add: map_snd_zip_take)
  finally show ?thesis using outs(2,3) by auto
qed

text \<open>
  \<^bold>\<open>Claim C10.\<close> Every record \<open>discover_range\<close> returns carries the media type passed in:
  the result is the concatenation of the pages its requests delivered, with
  \<open>media_type\<close> set to the argument on every record.
\<close>

theorem discover_range_stamps_media_type:
  assumes "discover_range mt sd ed pages w = (Inr rs, w')"
  shows "(\<forall>r\<in>set rs. raw_media_type r = Some mt) \<and>
         (\<exists>new. calls w' = calls w @ new \<and>
            rs = map (\<lambda>r. r\<lparr>raw_media_type := Some mt\<rparr>)
                   (concat (map (\<lambda>(path, params, out). outcome_results out) new)))"
proof -
  from discover_range_result [OF assms] obtain new where
    new: "calls w' = calls w @ new"
         "rs = map (\<lambda>r. r\<lparr>raw_media_type := Some mt\<rparr>)
                 (concat (map (\<lambda>(path, params, out). outcome_results out) new))"
    by blast
  from new(2) have "\<forall>r\<in>set rs. raw_media_type r = Some mt" by auto
  with new show ?thesis by blast
qed

text \<open>At the server with two pages: \<open>rec_A\<close> and \<open>rec_C\<close> arrive as movies and leave as \<open>tv\<close>
  (\<open>rec_B\<close> is one already).\<close>

theorem discover_range_stamps_media_type_witness:
  "discover_range ''tv'' ''2024-01-01'' ''2024-05-06'' 2 paged_world =
     (Inr [rec_A\<lparr>raw_media_type := Some ''tv''\<rparr>, rec_B, rec_C\<lparr>raw_media_type := Some ''tv''\<rparr>],
      snd (discover_range ''tv'' ''2024-01-01'' ''2024-05-06'' 2 paged_world)) \<and>
   raw_media_type rec_A = Some ''movie'' \<and>
   map raw_media_type [rec_A\<lparr>raw_media_type := Some ''tv''\<rparr>, rec_B, rec_C\<lparr>raw_media_type := Some ''tv''\<rparr>]
     = [Some ''tv'', Some ''tv'', Some ''tv'']"
proof -
  have run: "discover_range ''tv'' ''2024-01-01'' ''2024-05-06'' 2 paged_world =
     (Inr [rec_A\<lparr>raw_media_type := Some ''tv''\<rparr>, rec_B, rec_C\<lparr>raw_media_type := Some ''tv''\<rparr>],
      snd (discover_range ''tv'' ''2024-01-01'' ''2024-05-06'' 2 paged_world))"
    by (rule prod_eqI)
       (simp_all add: discover_range_def discover_request_def fetch_json_def requests_get_def sleep_def
          paged_world_def quiet_world_def page_of_def get_results_def Let_def upto.simps
          rec_B_def)
  from discover_range_stamps_media_type [OF run] run
  show ?thesis by (simp add: rec_A_def no_fields_def)
qed

text \<open>
  \<^bold>\<open>Claim C9.\<close> For a media type other than \<open>movie\<close> and \<open>tv\<close>, \<open>discover_range\<close> returns
  the empty list and leaves the world as it was: no request, no sleep, whatever the
  dates and the page bound.
\<close>

theorem discover_range_other_media:
  assumes "mt \<noteq> ''movie''" and "mt \<noteq> ''tv''"
  shows "discover_range mt sd ed pages w = (Inr [], w)"
  using assms by (simp add: discover_range_def discover_request_def)

theorem discover_range_other_media_witness:
  "''person'' \<noteq> ''movie'' \<and> ''person'' \<noteq> ''tv'' \<and>
   discover_range ''person'' ''2024-01-01'' ''2024-05-06'' 5 paged_world = (Inr [], paged_world) \<and>
   trace (snd (discover_range ''person'' ''2024-01-01'' ''2024-05-06'' 5 paged_world)) = []"
proof -
  have 1: "''person'' \<noteq> ''movie''" and 2: "''person'' \<noteq> ''tv''" by simp_all
  from discover_range_other_media [OF 1 2, of "''2024-01-01''" "''2024-05-06''" 5 paged_world]
  show ?thesis by (simp add: paged_world_def quiet_world_def)
qed

section \<open>Properties of the genre resolver\<close>

lemma map_of_dict_update: "map_of (dict_update d other) = map_of d ++ map_of (rev other)"
  unfolding dict_update_def
proof (induction other arbitrary: d)
  case Nil
  then show ?case by simp
next
  case (Cons e other)
  obtain k v where e: "e = (k, v)" by (cases e)
  have "map_of (AList.update k v d) ++ map_of (rev other) = map_of d ++ map_of (rev other @ [(k, v)])"
    by (simp add: update_conv' map_add_upd_left fun_eq_iff map_add_def split: option.splits)
  with Cons [of "AList.update k v d"] show ?case by (simp add: e)
qed

lemma map_of_dict_of: "map_of (dict_of entries) = map_of (rev entries)"
  by (simp add: dict_of_def map_of_dict_update)

lemma distinct_dict_update:
  "distinct (map fst d) \<Longrightarrow> distinct (map fst (dict_update d other))"
  unfolding dict_update_def
  by (induction other arbitrary: d) (auto simp: distinct_update)

lemma map_of_rev_distinct:
  "distinct (map fst xs) \<Longrightarrow> map_of (rev xs) = map_of xs"
proof (induction xs)
  case Nil
  then show ?case by simp
next
  case (Cons e xs)
  obtain k v where e: "e = (k, v)" by (cases e)
  from Cons.prems e have "map_of xs k = None"
    by (simp add: map_of_eq_None_iff)
  moreover from Cons have "map_of (rev xs) = map_of xs" by simp
  ultimately show ?case
    by (auto simp: e fun_eq_iff map_add_def split: option.splits)
qed

lemma map_of_rev_dict_of: "map_of (rev (dict_of entries)) = map_of (rev entries)"
proof -
  have "distinct (map fst (dict_of entries))"
    unfolding dict_of_def by (rule distinct_dict_update) simp
  then show ?thesis by (simp only: map_of_rev_distinct map_of_dict_of)
qed

lemma fetch_json_loop_frame:
  "fetch_json_loop url params attempts last_resp w = (res, w') \<Longrightarrow> \<exists>tr. w' = w\<lparr>trace := tr\<rparr>"
proof (induction attempts arbitrary: last_resp w)
  case Nil
  then have "w' = w" by (auto split: option.splits)
  then have "w' = w\<lparr>trace := trace w\<rparr>" by simp
  then show ?case by blast
next
  case (Cons attempt rest)
  show ?case
  proof (cases "server w (trace w) url params")
    case None
    with Cons.prems show ?thesis by (auto simp: requests_get_def)
  next
    case (Some resp)
    show ?thesis
    proof (cases "status_code resp = 200")
      case True
      with Some Cons.prems show ?thesis
        by (auto simp: requests_get_def split: option.splits)
    next
      case False
      with Some Cons.prems
      have "fetch_json_loop url params rest (Some resp)
              (sleep (of_int (1 + attempt)) (w\<lparr>trace := trace w @ [Get url params]\<rparr>)) = (res, w')"
        by (simp add: requests_get_def)
      from Cons.IH [OF this] show ?thesis by (auto simp: sleep_def)
    qed
  qed
qed

lemma fetch_json_frame:
  assumes "fetch_json path params w = (r, w')"
  shows "\<exists>tr. w' = w\<lparr>trace := tr, calls := calls w @ [(path, params, r)]\<rparr>"
proof -
  obtain r1 w1 where loop: "fetch_json_loop (API_BASE @ path) params [0, 1, 2] None w = (r1, w1)"
    by (cases "fetch_json_loop (API_BASE @ path) params [0, 1, 2] None w")
  from fetch_json_loop_frame [OF loop] obtain tr where "w1 = w\<lparr>trace := tr\<rparr>" by blast
  with assms loop show ?thesis by (auto simp: fetch_json_def)
qed

text \<open>
  \<^bold>\<open>Claim C6.\<close> A call of \<open>get_genre_map\<close> that returns has fetched the movie genre list
  and then the series genre list, and its map is the merge of the two with the series
  entries laid over the movie entries: an identifier the series list has reports the
  series name, whether or not the movie list has it too; any other identifier reports
  what the movie list says. (Within one list a later entry with the same identifier
  replaces an earlier one, hence \<open>rev\<close>.) The map is also what the side file holds.
\<close>

theorem genre_map_series_wins:
  assumes "get_genre_map file_name w = (Inr genre_map, w')"
  shows "\<exists>movie tv.
           calls w' = calls w @ [(''/genre/movie/list'', [], Inr movie), (''/genre/tv/list'', [], Inr tv)] \<and>
           map_of genre_map = map_of (rev (get_genres movie)) ++ map_of (rev (get_genres tv)) \<and>
           (\<forall>i. map_of genre_map i =
                  (case map_of (rev (get_genres tv)) i of
                     Some name \<Rightarrow> Some name
                   | None \<Rightarrow> map_of (rev (get_genres movie)) i)) \<and>
           files w' file_name = Some (GenresFile genre_map)"
proof -
  obtain r1 w1 where f1: "fetch_json ''/genre/movie/list'' [] w = (r1, w1)"
    by (cases "fetch_json ''/genre/movie/list'' [] w")
  from assms f1 obtain movie where r1: "r1 = Inr movie"
    by (cases r1) (auto simp: get_genre_map_def)
  obtain r2 w2 where f2: "fetch_json ''/genre/tv/list'' [] w1 = (r2, w2)"
    by (cases "fetch_json ''/genre/tv/list'' [] w1")
  from assms f1 r1 f2 obtain tv where r2: "r2 = Inr tv"
    by (cases r2) (auto simp: get_genre_map_def)
  from assms f1 r1 f2 r2
  have gm: "genre_map = dict_update (dict_of (get_genres movie)) (dict_of (get_genres tv))"
    and w': "w' = write_file file_name (GenresFile genre_map) w2"
    by (auto simp: get_genre_map_def Let_def)
  have m: "map_of genre_map = map_of (rev (get_genres movie)) ++ map_of (rev (get_genres tv))"
    unfolding gm map_of_dict_update map_of_dict_of map_of_rev_dict_of by (rule refl)
  have c: "calls w' = calls w @ [(''/genre/movie/list'', [], Inr movie), (''/genre/tv/list'', [], Inr tv)]"
    using fetch_json_frame [OF f1] fetch_json_frame [OF f2] r1 r2 w'
    by (auto simp: write_file_def)
  have "\<forall>i. map_of genre_map i =
          (case map_of (rev (get_genres tv)) i of
             Some name \<Rightarrow> Some name
           | None \<Rightarrow> map_of (rev (get_genres movie)) i)"
    unfolding m by (simp add: map_add_def)
  with m c w' show ?thesis by (auto simp: write_file_def)
qed

text \<open>At a server whose movie list has 10 as Horror and 28 as Action, and whose series list
  has 10 as Drama and 16 as Animation.\<close>

theorem genre_map_series_wins_witness:
  "get_genre_map ''genres.json'' tmdb_world =
     (Inr [(10, ''Drama''), (28, ''Action''), (16, ''Animation'')],
      snd (get_genre_map ''genres.json'' tmdb_world)) \<and>
   map (map_of [(10 :: int, ''Drama''), (28, ''Action''), (16, ''Animation'')]) [10, 28, 16, 99] =
     [Some ''Drama'', Some ''Action'', Some ''Animation'', None] \<and>
   map (\<lambda>(path, params, out). (path, map_sum (\<lambda>e. e) get_genres out))
       (calls (snd (get_genre_map ''genres.json'' tmdb_world))) =
     [(''/genre/movie/list'', Inr [(10, ''Horror''), (28, ''Action'')]),
      (''/genre/tv/list'', Inr [(10, ''Drama''), (16, ''Animation'')])]"
proof -
  have "fst (get_genre_map ''genres.json'' tmdb_world) =
          Inr [(10, ''Drama''), (28, ''Action''), (16, ''Animation'')]"
    by code_simp
  then have run: "get_genre_map ''genres.json'' tmdb_world =
     (Inr [(10, ''Drama''), (28, ''Action''), (16, ''Animation'')],
      snd (get_genre_map ''genres.json'' tmdb_world))"
    by (cases "get_genre_map ''genres.json'' tmdb_world") simp
  have c: "map (\<lambda>(path, params, out). (path, map_sum (\<lambda>e. e) get_genres out))
       (calls (snd (get_genre_map ''genres.json'' tmdb_world))) =
     [(''/genre/movie/list'', Inr [(10, ''Horror''), (28, ''Action'')]),
      (''/genre/tv/list'', Inr [(10, ''Drama''), (16, ''Animation'')])]"
    by code_simp
  from genre_map_series_wins [OF run] run c show ?thesis by simp
qed

section \<open>Properties of the cast sampler\<close>

lemma nargsort_Some:
  "nargsort argsort (map Some ks) =
     rev (map (\<lambda>j. rev [0..<length ks] ! j) (argsort (rev ks)))"
proof -
  let ?idx = "[0..<length ks]"
  have 1: "filter (\<lambda>i. map Some ks ! i \<noteq> None) ?idx = ?idx"
    by (rule filter_True) simp
  have 2: "filter (\<lambda>i. map Some ks ! i = None) ?idx = []"
    by (rule filter_False) simp
  have "map (\<lambda>i. the (map Some ks ! i)) (rev ?idx) = rev (map (\<lambda>i. ks ! i) ?idx)"
    by (simp add: rev_map)
  then have 3: "map (\<lambda>i. the (map Some ks ! i)) (rev ?idx) = rev ks"
    by (simp only: map_nth)
  show ?thesis
    unfolding nargsort_def Let_def length_map 1 2 3 by simp
qed

lemma nargsort_ok_mset:
  assumes "argsort_ok argsort"
  shows "mset (nargsort argsort (map Some ks)) = mset [0..<length ks]"
proof -
  let ?idx = "[0..<length ks]"
  from assms have "mset (argsort (rev ks)) = mset [0..<length (rev ks)]"
    unfolding argsort_ok_def by blast
  then have "mset (argsort (rev ks)) = mset [0..<length (rev ?idx)]" by simp
  then have "mset (map (\<lambda>j. rev ?idx ! j) (argsort (rev ks)))
               = mset (map (\<lambda>j. rev ?idx ! j) [0..<length (rev ?idx)])"
    by (simp only: mset_map)
  also have "\<dots> = mset (rev ?idx)" by (simp only: map_nth)
  finally show ?thesis unfolding nargsort_Some by simp
qed

lemma nargsort_ok_sorted:
  assumes "argsort_ok argsort"
  shows "sorted_wrt (\<lambda>i j. ks ! j \<le> ks ! i) (nargsort argsort (map Some ks))"
proof -
  let ?idx = "[0..<length ks]"
  let ?perm = "argsort (rev ks)"
  from assms have p: "mset ?perm = mset [0..<length (rev ks)]"
    and s: "sorted (map (\<lambda>j. rev ks ! j) ?perm)"
    unfolding argsort_ok_def by blast+
  have b: "j < length ks" if "j \<in> set ?perm" for j
  proof -
    from that have "j \<in># mset ?perm" by simp
    then show ?thesis unfolding p by simp
  qed
  have k: "ks ! (rev ?idx ! j) = rev ks ! j" if "j \<in> set ?perm" for j
    using b [OF that] by (simp add: rev_nth)
  have eq: "map (\<lambda>i. ks ! i) (map (\<lambda>j. rev ?idx ! j) ?perm) = map (\<lambda>j. rev ks ! j) ?perm"
    using k by simp
  have "sorted (map (\<lambda>i. ks ! i) (map (\<lambda>j. rev ?idx ! j) ?perm))"
    unfolding eq by (rule s)
  then have "sorted_wrt (\<lambda>i j. ks ! i \<le> ks ! j) (map (\<lambda>j. rev ?idx ! j) ?perm)"
    by (simp only: sorted_map)
  then show ?thesis unfolding nargsort_Some by (simp only: sorted_wrt_rev)
qed

lemma sort_values_ok:
  assumes "argsort_ok argsort"
  shows "mset (sort_values argsort (\<lambda>(name, cnt). Some cnt) df) = mset df"
    and "sorted_wrt (\<lambda>a b. snd b \<le> snd a) (sort_values argsort (\<lambda>(name, cnt). Some cnt) df)"
proof -
  let ?ks = "map snd df"
  let ?ix = "nargsort argsort (map Some ?ks)"
  have keys: "map (\<lambda>(name, cnt). Some cnt) df = map Some ?ks"
    by (simp add: case_prod_unfold)
  have m: "mset ?ix = mset [0..<length df]"
    using nargsort_ok_mset [OF assms, of ?ks] by simp
  have "mset (map (\<lambda>i. df ! i) ?ix) = mset (map (\<lambda>i. df ! i) [0..<length df])"
    using m by (simp only: mset_map)
  then show "mset (sort_values argsort (\<lambda>(name, cnt). Some cnt) df) = mset df"
    unfolding sort_values_def by (simp only: keys map_nth)
  have b: "i < length df" if "i \<in> set ?ix" for i
  proof -
    from that have "i \<in># mset ?ix" by simp
    then show ?thesis unfolding m by simp
  qed
  have "sorted_wrt (\<lambda>i j. ?ks ! j \<le> ?ks ! i) ?ix"
    by (rule nargsort_ok_sorted [OF assms])
  then have "sorted_wrt (\<lambda>i j. snd (df ! j) \<le> snd (df ! i)) ?ix"
    by (rule sorted_wrt_mono_rel [rotated]) (use b in simp)
  then show "sorted_wrt (\<lambda>a b. snd b \<le> snd a) (sort_values argsort (\<lambda>(name, cnt). Some cnt) df)"
    unfolding sort_values_def by (simp only: keys sorted_wrt_map)
qed

lemma argsort_ok_mergesort: "argsort_ok mergesort"
  unfolding argsort_ok_def mergesort_def
proof (intro allI conjI)
  fix ks :: "'a list"
  show "mset (sort_key (\<lambda>i. ks ! i) [0..<length ks]) = mset [0..<length ks]"
    by (rule mset_sort)
  show "sorted (map (\<lambda>i. ks ! i) (sort_key (\<lambda>i. ks ! i) [0..<length ks]))"
    by (rule sorted_sort_key)
qed

lemma argsort_ok_np_quicksort: "argsort_ok np_quicksort"
  unfolding argsort_ok_def
proof (intro allI conjI)
  fix ks :: "nat list"
  show "mset (np_quicksort ks) = mset [0..<length ks]"
  proof (cases "ks = [2, 2, 1, 1]")
    case True
    have "mset [3, 2, 1, 0 :: nat] = mset [0..<length [2, 2, 1, 1 :: nat]]"
      by code_simp
    with True show ?thesis by (simp add: np_quicksort_def del: upt_Suc)
  next
    case False
    have "mset (sort_key (\<lambda>i. ks ! i) [0..<length ks]) = mset [0..<length ks]"
      by (rule mset_sort)
    with False show ?thesis by (simp add: np_quicksort_def mergesort_def del: upt_Suc)
  qed
  show "sorted (map (\<lambda>i. ks ! i) (np_quicksort ks))"
  proof (cases "ks = [2, 2, 1, 1]")
    case True
    have "sorted (map (\<lambda>i. [2, 2, 1, 1 :: nat] ! i) [3, 2, 1, 0])"
      by code_simp
    with True show ?thesis by (simp add: np_quicksort_def del: upt_Suc)
  next
    case False
    have "sorted (map (\<lambda>i. ks ! i) (sort_key (\<lambda>i. ks ! i) [0..<length ks]))"
      by (rule sorted_sort_key)
    with False show ?thesis by (simp add: np_quicksort_def mergesort_def del: upt_Suc)
  qed
qed

lemma distinct_count_cast:
  "distinct (map fst cast_counts) \<Longrightarrow> distinct (map fst (count_cast cs cast_counts))"
  by (induction cs arbitrary: cast_counts) (auto simp: distinct_update split: option.splits)

lemma get_credits_frame:
  assumes "get_credits mt tmdb_id w = (r, w')"
  shows "quicksort w' = quicksort w \<and> files w' = files w"
proof -
  have "\<exists>tr cs. w' = w\<lparr>trace := tr, calls := cs\<rparr>"
  proof (cases "mt = Some ''movie'' \<or> mt = Some ''tv''")
    case True
    with assms obtain path where "fetch_json path [] w = (r, w')"
      by (auto simp: get_credits_def split: if_splits)
    from fetch_json_frame [OF this] show ?thesis by blast
  next
    case False
    with assms have "w' = w" by (auto simp: get_credits_def)
    then have "w' = w\<lparr>trace := trace w, calls := calls w\<rparr>" by simp
    then show ?thesis by blast
  qed
  then show ?thesis by auto
qed

lemma sample_loop_frame:
  "sample_loop id_error rows cast_counts w = (res, w') \<Longrightarrow>
     quicksort w' = quicksort w \<and> files w' = files w"
proof (induction rows arbitrary: cast_counts w)
  case Nil
  then show ?case by simp
next
  case (Cons row rest)
  show ?case
  proof (cases "row_id row")
    case None
    with Cons.prems show ?thesis by simp
  next
    case (Some tmdb_id)
    obtain r w1 where g: "get_credits (media_type row) tmdb_id w = (r, w1)"
      by (cases "get_credits (media_type row) tmdb_id w")
    note f = get_credits_frame [OF g]
    show ?thesis
    proof (cases r)
      case (Inl e)
      with Some g Cons.prems f show ?thesis by simp
    next
      case (Inr credits)
      with Some g Cons.prems
      have "sample_loop id_error rest (count_cast (get_cast credits) cast_counts) (sleep (2 / 10) w1)
              = (res, w')"
        by simp
      from Cons.IH [OF this] f show ?thesis by (simp add: sleep_def)
    qed
  qed
qed

lemma distinct_sample_loop:
  "sample_loop id_error rows cast_counts w = (Inr out, w') \<Longrightarrow> distinct (map fst cast_counts)
     \<Longrightarrow> distinct (map fst out)"
proof (induction rows arbitrary: cast_counts w)
  case Nil
  then show ?case by simp
next
  case (Cons row rest)
  from Cons.prems(1) obtain tmdb_id where i: "row_id row = Some tmdb_id"
    by (cases "row_id row") auto
  obtain r w1 where g: "get_credits (media_type row) tmdb_id w = (r, w1)"
    by (cases "get_credits (media_type row) tmdb_id w")
  with i Cons.prems(1) obtain credits where r: "r = Inr credits"
    by (cases r) auto
  with i g Cons.prems(1)
  have "sample_loop id_error rest (count_cast (get_cast credits) cast_counts) (sleep (2 / 10) w1)
          = (Inr out, w')"
    by simp
  from Cons.IH [OF this distinct_count_cast [OF Cons.prems(2)]] show ?case .
qed

text \<open>
  \<^bold>\<open>Claim C8\<close>, as the code has it. \<open>top_cast_from_sample\<close> sorts with
  \<^verbatim>\<open>sort_values("count", ascending=False)\<close>, without a \<open>kind\<close>: numpy's default quicksort,
  of which only \<open>argsort_ok\<close> is promised. On that promise the returned table holds
  exactly the (name, count) pairs of the accumulated dict, each name once, and is sorted
  descending by count. Nothing is promised about the order of names with equal counts.
\<close>

theorem top_cast_sorted_by_count:
  assumes "argsort_ok (quicksort w)"
    and "top_cast_from_sample df sample_size w = (Inr out, w')"
  shows "\<exists>cast_counts.
           sample_loop (int_id_error df) (head sample_size df) [] w = (Inr cast_counts, w') \<and>
           mset out = mset cast_counts \<and>
           distinct (map fst out) \<and>
           sorted_wrt (\<lambda>a b. snd b \<le> snd a) out"
proof -
  obtain r w1 where s: "sample_loop (int_id_error df) (head sample_size df) [] w = (r, w1)"
    by (cases "sample_loop (int_id_error df) (head sample_size df) [] w")
  with assms(2) obtain cast_counts where r: "r = Inr cast_counts"
    by (cases r) (auto simp: top_cast_from_sample_def)
  from sample_loop_frame [OF s] assms(1) have ok: "argsort_ok (quicksort w1)" by simp
  from assms(2) s r have w': "w' = w1"
    and out: "out = (if cast_counts = [] then []
                     else sort_values (quicksort w1) (\<lambda>(name, cnt). Some cnt) cast_counts)"
    by (auto simp: top_cast_from_sample_def split: if_splits)
  have d: "distinct (map fst cast_counts)"
    using distinct_sample_loop [of "int_id_error df" "head sample_size df" "[]" w cast_counts w1] s r
    by simp
  have m: "mset out = mset cast_counts"
    unfolding out using sort_values_ok(1) [OF ok, of cast_counts] by simp
  then have "mset (map fst out) = mset (map fst cast_counts)" by simp
  from mset_eq_imp_distinct_iff [OF this] d have d': "distinct (map fst out)"
    by simp
  have "sorted_wrt (\<lambda>a b. snd b \<le> snd a) out"
    unfolding out using sort_values_ok(2) [OF ok, of cast_counts] by simp
  with s r w' m d' show ?thesis by blast
qed

text \<open>At the example world: the series B and the movies A and C are sampled. Ann, Bob, Cy
  and Dee are seen in this order, Cy and Dee twice. The table the sampler returns is
  sorted descending by count.\<close>

theorem top_cast_sorted_by_count_witness:
  "argsort_ok (quicksort tmdb_world) \<and>
   fst (top_cast_from_sample example_df 3 tmdb_world) =
     Inr [(''Dee'', 2), (''Cy'', 2), (''Bob'', 1), (''Ann'', 1)] \<and>
   mset [(''Dee'', 2 :: nat), (''Cy'', 2), (''Bob'', 1), (''Ann'', 1)] =
     mset [(''Ann'', 1), (''Bob'', 1), (''Cy'', 2), (''Dee'', 2)] \<and>
   sorted_wrt (\<lambda>a b. snd b \<le> snd a) [(''Dee'', 2 :: nat), (''Cy'', 2), (''Bob'', 1), (''Ann'', 1)]"
proof -
  let ?out = "[(''Dee'', 2 :: nat), (''Cy'', 2), (''Bob'', 1), (''Ann'', 1)]"
  let ?w' = "snd (top_cast_from_sample example_df 3 tmdb_world)"
  have ok: "argsort_ok (quicksort tmdb_world)"
    using argsort_ok_np_quicksort by (simp add: tmdb_world_def quiet_world_def)
  have s: "fst (sample_loop (int_id_error example_df) (head 3 example_df) [] tmdb_world) =
             Inr [(''Ann'', 1), (''Bob'', 1), (''Cy'', 2), (''Dee'', 2)]"
    by code_simp
  have t: "fst (top_cast_from_sample example_df 3 tmdb_world) = Inr ?out"
    by code_simp
  then have run: "top_cast_from_sample example_df 3 tmdb_world = (Inr ?out, ?w')"
    by (cases "top_cast_from_sample example_df 3 tmdb_world") simp
  from top_cast_sorted_by_count [OF ok run] obtain cast_counts where
    c: "sample_loop (int_id_error example_df) (head 3 example_df) [] tmdb_world = (Inr cast_counts, ?w')"
    and m: "mset ?out = mset cast_counts"
    and srt: "sorted_wrt (\<lambda>a b. snd b \<le> snd a) ?out"
    by blast
  from c s have "cast_counts = [(''Ann'', 1), (''Bob'', 1), (''Cy'', 2), (''Dee'', 2)]"
    by simp
  with m have m': "mset ?out = mset [(''Ann'', 1 :: nat), (''Bob'', 1), (''Cy'', 2), (''Dee'', 2)]"
    by simp
  from ok t m' srt show ?thesis by (intro conjI)
qed

text \<open>
  The claim as written (ties in first-seen order, because the sort is stable) fails at
  the same run. The names are first seen in the order Ann, Bob, Cy, Dee; Cy and Dee are
  counted twice, Ann and Bob once. In the output Dee stands before Cy and Bob before
  Ann: both ties are in the reverse of the first-seen order. The stable sort would have
  given Cy, Dee, Ann, Bob.
\<close>

theorem top_cast_ties_counterexample:
  "fst (sample_loop (int_id_error example_df) (head 3 example_df) [] tmdb_world) =
     Inr [(''Ann'', 1), (''Bob'', 1), (''Cy'', 2), (''Dee'', 2)] \<and>
   fst (top_cast_from_sample example_df 3 tmdb_world) =
     Inr [(''Dee'', 2), (''Cy'', 2), (''Bob'', 1), (''Ann'', 1)] \<and>
   sort_values mergesort (\<lambda>(name, cnt). Some cnt)
       [(''Ann'', 1 :: nat), (''Bob'', 1), (''Cy'', 2), (''Dee'', 2)] =
     [(''Cy'', 2), (''Dee'', 2), (''Ann'', 1), (''Bob'', 1)] \<and>
   fst (top_cast_from_sample example_df 3 tmdb_world) \<noteq>
     Inr (sort_values mergesort (\<lambda>(name, cnt). Some cnt)
            [(''Ann'', 1), (''Bob'', 1), (''Cy'', 2), (''Dee'', 2)])"
proof -
  have s: "fst (sample_loop (int_id_error example_df) (head 3 example_df) [] tmdb_world) =
             Inr [(''Ann'', 1), (''Bob'', 1), (''Cy'', 2), (''Dee'', 2)]"
    by code_simp
  have t: "fst (top_cast_from_sample example_df 3 tmdb_world) =
             Inr [(''Dee'', 2), (''Cy'', 2), (''Bob'', 1), (''Ann'', 1)]"
    by code_simp
  have m: "sort_values mergesort (\<lambda>(name, cnt). Some cnt)
               [(''Ann'', 1 :: nat), (''Bob'', 1), (''Cy'', 2), (''Dee'', 2)] =
             [(''Cy'', 2), (''Dee'', 2), (''Ann'', 1), (''Bob'', 1)]"
    by code_simp
  have n: "fst (top_cast_from_sample example_df 3 tmdb_world) \<noteq>
             Inr (sort_values mergesort (\<lambda>(name, cnt). Some cnt)
                    [(''Ann'', 1), (''Bob'', 1), (''Cy'', 2), (''Dee'', 2)])"
    unfolding t m by simp
  from s t m n show ?thesis by (intro conjI)
qed

section \<open>Properties of the history merge\<close>

lemma get_trending_loop_frame:
  "get_trending_loop path pages acc w = (res, w') \<Longrightarrow> \<exists>tr cs. w' = w\<lparr>trace := tr, calls := cs\<rparr>"
proof (induction pages arbitrary: acc w)
  case Nil
  then have "w' = w\<lparr>trace := trace w, calls := calls w\<rparr>" by simp
  then show ?case by blast
next
  case (Cons page rest)
  obtain r w1 where f: "fetch_json path [(''page'', PInt page)] w = (r, w1)"
    by (cases "fetch_json path [(''page'', PInt page)] w")
  from fetch_json_frame [OF f] obtain tr1 cs1 where w1: "w1 = w\<lparr>trace := tr1, calls := cs1\<rparr>"
    by blast
  show ?case
  proof (cases r)
    case (Inl e)
    with f Cons.prems have "w' = w1" by auto
    with w1 show ?thesis by blast
  next
    case (Inr data)
    show ?thesis
    proof (cases "get_results data = []")
      case True
      with f Inr Cons.prems have "w' = w1" by auto
      with w1 show ?thesis by blast
    next
      case False
      with f Inr Cons.prems
      have "get_trending_loop path rest (acc @ get_results data) (sleep (3 / 10) w1) = (res, w')"
        by simp
      from Cons.IH [OF this] obtain tr cs where "w' = (sleep (3 / 10) w1)\<lparr>trace := tr, calls := cs\<rparr>"
        by blast
      with w1 have "w' = w\<lparr>trace := tr, calls := cs\<rparr>" by (simp add: sleep_def)
      then show ?thesis by blast
    qed
  qed
qed

lemma get_trending_frame:
  assumes "get_trending mt tw pages w = (res, w')"
  shows "files w' = files w \<and> today w' = today w"
proof -
  let ?path = "''/trending/'' @ mt @ ''/'' @ tw"
  obtain r w1 where loop: "get_trending_loop ?path [1..pages] [] w = (r, w1)"
    by (cases "get_trending_loop ?path [1..pages] [] w")
  from assms have "w' = w1"
    unfolding get_trending_def loop by (cases r) auto
  with get_trending_loop_frame [OF loop] show ?thesis by auto
qed

lemma get_genre_map_frame:
  assumes "get_genre_map file_name w = (Inr genre_map, w')"
  shows "files w' = (files w)(file_name \<mapsto> GenresFile genre_map) \<and> today w' = today w"
proof -
  obtain r1 w1 where f1: "fetch_json ''/genre/movie/list'' [] w = (r1, w1)"
    by (cases "fetch_json ''/genre/movie/list'' [] w")
  from assms f1 obtain movie where r1: "r1 = Inr movie"
    by (cases r1) (auto simp: get_genre_map_def)
  obtain r2 w2 where f2: "fetch_json ''/genre/tv/list'' [] w1 = (r2, w2)"
    by (cases "fetch_json ''/genre/tv/list'' [] w1")
  from assms f1 r1 f2 obtain tv where r2: "r2 = Inr tv"
    by (cases r2) (auto simp: get_genre_map_def)
  from assms f1 r1 f2 r2 have "w' = write_file file_name (GenresFile genre_map) w2"
    by (auto simp: get_genre_map_def Let_def)
  with fetch_json_frame [OF f1] fetch_json_frame [OF f2] show ?thesis
    by (auto simp: write_file_def)
qed

lemma cast_step_files:
  assumes "cast_step args stamp df w = (res, w')"
  shows "files w' = files w \<or>
         (\<exists>cast_df. files w' = (files w)(''sample_cast_counts_'' @ stamp @ ''.csv'' \<mapsto> CastFile cast_df))"
proof (cases "df \<noteq> [] \<and> cast_sample args > 0")
  case False
  with assms show ?thesis by (auto simp: cast_step_def)
next
  case True
  let ?n = "min (cast_sample args) (int (length df))"
  obtain r w1 where t: "top_cast_from_sample df ?n w = (r, w1)"
    by (cases "top_cast_from_sample df ?n w")
  obtain r0 w0 where s: "sample_loop (int_id_error df) (head ?n df) [] w = (r0, w0)"
    by (cases "sample_loop (int_id_error df) (head ?n df) [] w")
  with t have "w1 = w0"
    by (cases r0) (auto simp: top_cast_from_sample_def split: if_splits)
  with sample_loop_frame [OF s] have f: "files w1 = files w" by simp
  show ?thesis
  proof (cases r)
    case (Inl e)
    with True assms t have "w' = w1" by (auto simp: cast_step_def)
    with f show ?thesis by simp
  next
    case (Inr cast_df)
    with True assms t
    have "w' = write_file (''sample_cast_counts_'' @ stamp @ ''.csv'') (CastFile cast_df) w1"
      by (auto simp: cast_step_def)
    with f show ?thesis by (auto simp: write_file_def)
  qed
qed

text \<open>What a text cell of the old table is after \<^verbatim>\<open>read_csv\<close> and \<^verbatim>\<open>to_csv\<close>: itself, unless
  it is one of the missing-value markers; then it is empty.\<close>

lemma write_read_cell: "write_cell (read_cell c) = (if c \<in> set na_values then '''' else c)"
  by (simp add: write_cell_def read_cell_def)

lemma append_history_files:
  assumes "files w hist_path = Some (TableFile old)"
  shows "append_history hist_path df w =
           (Inr (), write_file hist_path
                      (TableFile (to_csv (read_csv old) @ to_csv (map frame_row df))) w)"
  using assms by (simp add: append_history_def to_csv_def)

text \<open>
  Step 6 in a run of \<open>main\<close> that gets as far: whatever becomes of step 7, the history
  file holds the old table as \<^verbatim>\<open>read_csv\<close> and \<^verbatim>\<open>to_csv\<close> leave it, row by row, followed by
  the rows of the clean CSV of the run. The number of rows is \<open>N + M\<close>, and the order is
  kept; the cells of the old rows are kept where \<open>write_read_cell\<close> keeps them.
\<close>

lemma main_history:
  assumes "main args w = (res, w')"
    and "token w \<noteq> []"
    and "get_trending (media args) (window args) 5 w = (Inr trending, w1)"
    and "get_genre_map ''genres.json''
           (write_file (''trending_'' @ media args @ ''_'' @ window args @ ''_raw_'' @ today w @ ''.json'')
              (JsonFile trending) w1) = (Inr genre_map, w3)"
    and "files w (''trending_'' @ media args @ ''_'' @ window args @ ''_history.csv'') =
           Some (TableFile old)"
  shows "\<exists>new. files w' (''trending_'' @ media args @ ''_'' @ window args @ ''_clean_'' @ today w @ ''.csv'')
                  = Some (TableFile new) \<and>
               files w' (''trending_'' @ media args @ ''_'' @ window args @ ''_history.csv'')
                  = Some (TableFile (map (map_text (\<lambda>c. write_cell (read_cell c))) old @ new)) \<and>
               length new = length (get_results trending)"
proof -
  let ?prefix = "''trending_'' @ media args @ ''_'' @ window args"
  let ?hist = "?prefix @ ''_history.csv''"
  let ?clean = "?prefix @ ''_clean_'' @ today w @ ''.csv''"
  let ?raw = "?prefix @ ''_raw_'' @ today w @ ''.json''"
  let ?by_genre = "?prefix @ ''_by_genre_'' @ today w @ ''.csv''"
  let ?w2 = "write_file ?raw (JsonFile trending) w1"
  let ?df = "map (add_week (today w)) (normalize_trending (get_results trending) genre_map)"
  let ?new = "to_csv (map frame_row ?df)"
  let ?w4 = "write_file ?clean (TableFile ?new) w3"
  let ?w5 = "write_file ?by_genre (ByGenreFile (expand_by_genre ?df)) ?w4"
  let ?old' = "to_csv (read_csv old)"
  let ?w6 = "write_file ?hist (TableFile (?old' @ ?new)) ?w5"
  have t: "get_trending (media args) (window args) 5 w = (Inr trending, w1)"
    by (rule assms(3))
  have g: "get_genre_map ''genres.json'' ?w2 = (Inr genre_map, w3)"
    using assms(4) by simp
  note f1 = get_trending_frame [OF t]
  note f3 = get_genre_map_frame [OF g]
  have f5: "files ?w5 = (files w)(?raw \<mapsto> JsonFile trending, ''genres.json'' \<mapsto> GenresFile genre_map,
                                  ?clean \<mapsto> TableFile ?new, ?by_genre \<mapsto> ByGenreFile (expand_by_genre ?df))"
    using f1 f3 by (simp add: write_file_def)
  have h5: "files ?w5 ?hist = Some (TableFile old)"
    unfolding f5 using assms(5) by simp
  have h: "append_history ?hist ?df ?w5 = (Inr (), ?w6)"
    by (rule append_history_files [OF h5])
  from assms(1) assms(2) t g h have c: "cast_step args (today w) ?df ?w6 = (res, w')"
    by (simp add: main_def Let_def)
  have f6: "files ?w6 = (files ?w5)(?hist \<mapsto> TableFile (?old' @ ?new))"
    by (simp add: write_file_def)
  have h6: "files ?w6 ?hist = Some (TableFile (?old' @ ?new))"
    unfolding f6 by simp
  have c6: "files ?w6 ?clean = Some (TableFile ?new)"
    unfolding f6 f5 by simp
  from cast_step_files [OF c]
  have w': "files w' ?hist = files ?w6 ?hist \<and> files w' ?clean = files ?w6 ?clean"
    by auto
  have o: "?old' = map (map_text (\<lambda>c. write_cell (read_cell c))) old"
    by (simp add: to_csv_def read_csv_def map_text_def)
  have l: "length ?new = length (get_results trending)"
    by (simp add: to_csv_def normalize_trending_indexer length_nargsort_mergesort)
  from w' h6 c6 o l show ?thesis by simp
qed

text \<open>At the history of one ordinary row, the row of the movie \<open>A\<close>: the run leaves that row
  as it was, followed by the three rows of the clean CSV.\<close>

lemma history_keeps_plain_row:
  "table_rows (files history_world ''trending_all_week_history.csv'') = [old_row] \<and>
   fst (main example_args history_world) = Inr () \<and>
   table_rows (files (snd (main example_args history_world)) ''trending_all_week_history.csv'') =
     old_row #
     table_rows (files (snd (main example_args history_world))
                   ''trending_all_week_clean_2024-05-06.csv'') \<and>
   map (\<lambda>r. (t_title r, t_week r))
     (table_rows (files (snd (main example_args history_world)) ''trending_all_week_history.csv'')) =
     [(''A'', ''2024-04-29''), (''B'', ''2024-05-06''), (''A'', ''2024-05-06''), (''C'', ''2024-05-06'')]"
proof -
  let ?w' = "snd (main example_args history_world)"
  have 1: "table_rows (files history_world ''trending_all_week_history.csv'') = [old_row]"
    by (simp add: history_world_def table_rows_def)
  have 2: "fst (main example_args history_world) = Inr ()" by code_simp
  have 3: "table_rows (files ?w' ''trending_all_week_history.csv'') =
             old_row # table_rows (files ?w' ''trending_all_week_clean_2024-05-06.csv'')"
    by code_simp
  have 4: "map (\<lambda>r. (t_title r, t_week r)) (table_rows (files ?w' ''trending_all_week_history.csv'')) =
     [(''A'', ''2024-04-29''), (''B'', ''2024-05-06''), (''A'', ''2024-05-06''), (''C'', ''2024-05-06'')]"
    by code_simp
  from 1 2 3 4 show ?thesis by (intro conjI)
qed

text \<open>
  \<^bold>\<open>Claim C7\<close> fails at a history whose one row has the title \<open>NA\<close>, the row an earlier run
  wrote for a movie of that title. The run succeeds and the history has \<open>1 + 3\<close> rows,
  the three rows of the clean CSV last; but its first row is not the old row: the old
  table was read with the defaults of \<^verbatim>\<open>read_csv\<close>, the title \<open>NA\<close> was taken for a missing
  value, and it is written back empty.
\<close>

theorem history_rewrites_NA_title:
  "table_rows (files na_history_world ''trending_all_week_history.csv'') = [na_row] \<and>
   t_title na_row = ''NA'' \<and>
   fst (main example_args na_history_world) = Inr () \<and>
   table_rows (files (snd (main example_args na_history_world)) ''trending_all_week_history.csv'') =
     na_row\<lparr> t_title := '''' \<rparr> #
     table_rows (files (snd (main example_args na_history_world))
                   ''trending_all_week_clean_2024-05-06.csv'') \<and>
   map t_title
     (table_rows (files (snd (main example_args na_history_world)) ''trending_all_week_history.csv'')) =
     ['''', ''B'', ''A'', ''C''] \<and>
   take 1 (table_rows (files (snd (main example_args na_history_world))
                         ''trending_all_week_history.csv'')) \<noteq> [na_row]"
proof -
  let ?w' = "snd (main example_args na_history_world)"
  have 1: "table_rows (files na_history_world ''trending_all_week_history.csv'') = [na_row]"
    by (simp add: na_history_world_def table_rows_def)
  have 2: "t_title na_row = ''NA''" by code_simp
  have 3: "fst (main example_args na_history_world) = Inr ()" by code_simp
  have 4: "table_rows (files ?w' ''trending_all_week_history.csv'') =
             na_row\<lparr> t_title := '''' \<rparr> #
             table_rows (files ?w' ''trending_all_week_clean_2024-05-06.csv'')"
    by code_simp
  have 5: "map t_title (table_rows (files ?w' ''trending_all_week_history.csv'')) =
             ['''', ''B'', ''A'', ''C'']"
    by code_simp
  have 6: "take 1 (table_rows (files ?w' ''trending_all_week_history.csv'')) \<noteq> [na_row]"
    by code_simp
  from 1 2 3 4 5 6 show ?thesis by (intro conjI)
qed

end
